theory Spec2Isabelle
  imports Complex_Main "HOL-Library.Multiset"
begin


section \<open>Data model (types.ts, playerStore)\<close>

text \<open>
  JavaScript numbers that the code uses as array positions are modelled as \<open>int\<close>,
  times in seconds as \<open>real\<close>. A \<open>File\<close> object carries an identity \<open>fident\<close>, so that
  HOL equality of two files is the reference equality \<open>===\<close> of the source.
\<close>

record File =
  fname :: string
  fsize :: nat
  fident :: nat

datatype permission = Granted | Denied | Prompt

datatype error = TypeError | PermissionDeniedError | NotAllowedError | NotFoundError

text \<open>
  A \<open>FileSystemFileHandle\<close> as the code sees it: what \<open>queryPermission\<close> and
  \<open>requestPermission\<close> resolve to (\<open>None\<close> when the method does not exist on the handle)
  and what \<open>getFile()\<close> resolves to or rejects with.
\<close>

record fileHandle =
  queryPermission :: "permission option"
  requestPermission :: "permission option"
  getFile :: "error + File"

record song =
  sid :: string
  title :: string
  duration :: real
  path :: "string option"
  sfile :: "File option"
  sfileHandle :: "fileHandle option"

text \<open>
  The player store. An array entry is \<open>Some song\<close>, or \<open>None\<close> for the value
  \<open>undefined\<close>, which \<open>reorderQueue\<close> can store into the array.
\<close>

record player_state =
  queue :: "song option list"
  originalQueue :: "song option list"
  queueTitle :: string
  currentIndex :: "int option"
  isPlaying :: bool
  isShuffled :: bool
  songProgress :: "string \<rightharpoonup> real"
  permissionErrorSong :: "song option"

definition initial_state :: player_state where
  "initial_state =
     \<lparr>queue = [], originalQueue = [], queueTitle = ''Queue'', currentIndex = None,
      isPlaying = False, isShuffled = False, songProgress = Map.empty,
      permissionErrorSong = None\<rparr>"

section \<open>Array primitives of the host language\<close>

text \<open>\<open>arr[i]\<close>: \<open>undefined\<close> outside the array.\<close>

definition entry_at :: "'a option list \<Rightarrow> int \<Rightarrow> 'a option" where
  "entry_at xs i = (if 0 \<le> i \<and> i < int (length xs) then xs ! nat i else None)"

text \<open>The start position \<open>Array.prototype.splice\<close> computes from its first argument.\<close>

definition splice_start :: "nat \<Rightarrow> int \<Rightarrow> nat" where
  "splice_start len start =
     (if start < 0 then nat (max (int len + start) 0) else min (nat start) len)"

text \<open>\<open>xs.splice(start, 1)\<close>: the array afterwards and the removed elements.\<close>

definition splice_remove1 :: "'a list \<Rightarrow> int \<Rightarrow> 'a list \<times> 'a list" where
  "splice_remove1 xs start =
     (let k = splice_start (length xs) start
      in (take k xs @ drop (Suc k) xs, take 1 (drop k xs)))"

text \<open>\<open>xs.splice(start, 0, ...ys)\<close>: the array afterwards.\<close>

definition splice_insert :: "'a list \<Rightarrow> int \<Rightarrow> 'a list \<Rightarrow> 'a list" where
  "splice_insert xs start ys =
     (let k = splice_start (length xs) start in take k xs @ ys @ drop k xs)"

text \<open>
  Callbacks that read \<open>.id\<close> of an entry throw \<open>TypeError\<close> on \<open>undefined\<close>.
  \<open>id_is c s\<close> is the callback \<open>s => s.id === c.id\<close> (the left operand is evaluated
  first, either read can throw); \<open>id_differs i s\<close> is \<open>s => s.id !== i\<close>.
\<close>

definition id_is :: "song option \<Rightarrow> song option \<Rightarrow> error + bool" where
  "id_is c s =
     (case s of None \<Rightarrow> Inl TypeError
      | Some s' \<Rightarrow> (case c of None \<Rightarrow> Inl TypeError | Some c' \<Rightarrow> Inr (sid s' = sid c')))"

definition id_differs :: "string \<Rightarrow> song option \<Rightarrow> error + bool" where
  "id_differs i s = (case s of None \<Rightarrow> Inl TypeError | Some s' \<Rightarrow> Inr (sid s' \<noteq> i))"

text \<open>\<open>findIndex\<close>, counting from \<open>k\<close>; \<open>-1\<close> when no entry satisfies the callback.\<close>

fun findIndexFrom :: "('a \<Rightarrow> error + bool) \<Rightarrow> 'a list \<Rightarrow> int \<Rightarrow> error + int" where
  "findIndexFrom p [] k = Inr (- 1)"
| "findIndexFrom p (x # xs) k =
     (case p x of
        Inl e \<Rightarrow> Inl e
      | Inr b \<Rightarrow> if b then Inr k else findIndexFrom p xs (k + 1))"

definition findIndex :: "('a \<Rightarrow> error + bool) \<Rightarrow> 'a list \<Rightarrow> error + int" where
  "findIndex p xs = findIndexFrom p xs 0"

fun filterE :: "('a \<Rightarrow> error + bool) \<Rightarrow> 'a list \<Rightarrow> error + 'a list" where
  "filterE p [] = Inr []"
| "filterE p (x # xs) =
     (case p x of
        Inl e \<Rightarrow> Inl e
      | Inr b \<Rightarrow> (case filterE p xs of
                   Inl e \<Rightarrow> Inl e
                 | Inr ys \<Rightarrow> Inr (if b then x # ys else ys)))"

fun mapE :: "('a \<Rightarrow> error + 'b) \<Rightarrow> 'a list \<Rightarrow> error + 'b list" where
  "mapE f [] = Inr []"
| "mapE f (x # xs) =
     (case f x of
        Inl e \<Rightarrow> Inl e
      | Inr y \<Rightarrow> (case mapE f xs of Inl e \<Rightarrow> Inl e | Inr ys \<Rightarrow> Inr (y # ys)))"

section \<open>Queue actions of the player store\<close>

definition setQueue :: "song list \<Rightarrow> string \<Rightarrow> player_state \<Rightarrow> player_state" where
  "setQueue songs ttl s =
     s\<lparr>queue := map Some songs, originalQueue := map Some songs,
       queueTitle := ttl, isShuffled := False\<rparr>"

definition setOriginalQueue :: "song list \<Rightarrow> player_state \<Rightarrow> player_state" where
  "setOriginalQueue songs s = s\<lparr>originalQueue := map Some songs\<rparr>"

definition setCurrentIndex :: "int option \<Rightarrow> player_state \<Rightarrow> player_state" where
  "setCurrentIndex index s = s\<lparr>currentIndex := index\<rparr>"

definition reorderQueue :: "int \<Rightarrow> int \<Rightarrow> player_state \<Rightarrow> player_state" where
  "reorderQueue startIndex endIndex s =
     (let (rest, removedList) = splice_remove1 (queue s) startIndex;
          removed = (case removedList of [] \<Rightarrow> None | x # _ \<Rightarrow> x);
          result = splice_insert rest endIndex [removed];
          newIndex =
            (if currentIndex s = Some startIndex then Some endIndex
             else case currentIndex s of
                    None \<Rightarrow> None
                  | Some c \<Rightarrow>
                      if startIndex < c \<and> endIndex \<ge> c then Some (c - 1)
                      else if startIndex > c \<and> endIndex \<le> c then Some (c + 1)
                      else Some c);
          newOriginal = (if isShuffled s then originalQueue s else result)
      in s\<lparr>queue := result, currentIndex := newIndex, originalQueue := newOriginal\<rparr>)"

definition addToQueue :: "song \<Rightarrow> player_state \<Rightarrow> player_state" where
  "addToQueue sg s =
     s\<lparr>queue := queue s @ [Some sg], originalQueue := originalQueue s @ [Some sg]\<rparr>"

text \<open>An updater that throws leaves the store as it was: the result is \<open>Inl\<close>.\<close>

definition playNext :: "song \<Rightarrow> player_state \<Rightarrow> error + player_state" where
  "playNext sg s =
     (case currentIndex s of
        None \<Rightarrow>
          Inr (s\<lparr>queue := [Some sg], originalQueue := [Some sg], currentIndex := Some 0\<rparr>)
      | Some c \<Rightarrow>
          (let newQueue = splice_insert (queue s) (c + 1) [Some sg];
               currentSong = entry_at (queue s) c
           in case findIndex (id_is currentSong) (originalQueue s) of
                Inl e \<Rightarrow> Inl e
              | Inr originalIndex \<Rightarrow>
                  Inr (s\<lparr>queue := newQueue,
                         originalQueue :=
                           (if originalIndex \<noteq> - 1
                            then splice_insert (originalQueue s) (originalIndex + 1) [Some sg]
                            else originalQueue s @ [Some sg])\<rparr>)))"

datatype add_mode = NEXT | END

definition bulkAddToQueue :: "song list \<Rightarrow> add_mode \<Rightarrow> player_state \<Rightarrow> error + player_state" where
  "bulkAddToQueue songs mode s =
     (case mode of
        NEXT \<Rightarrow>
          (case currentIndex s of
             None \<Rightarrow>
               Inr (s\<lparr>queue := map Some songs, originalQueue := map Some songs,
                      currentIndex := Some 0\<rparr>)
           | Some c \<Rightarrow>
               (let newQueue = splice_insert (queue s) (c + 1) (map Some songs);
                    currentSong = entry_at (queue s) c
                in case findIndex (id_is currentSong) (originalQueue s) of
                     Inl e \<Rightarrow> Inl e
                   | Inr originalIndex \<Rightarrow>
                       Inr (s\<lparr>queue := newQueue,
                              originalQueue :=
                                (if originalIndex \<noteq> - 1
                                 then splice_insert (originalQueue s) (originalIndex + 1)
                                        (map Some songs)
                                 else originalQueue s @ map Some songs)\<rparr>)))
      | END \<Rightarrow>
          Inr (s\<lparr>queue := queue s @ map Some songs,
                 originalQueue := originalQueue s @ map Some songs\<rparr>))"

definition clearQueue :: "player_state \<Rightarrow> player_state" where
  "clearQueue s =
     (case currentIndex s of
        None \<Rightarrow> s
      | Some c \<Rightarrow>
          (case entry_at (queue s) c of
             None \<Rightarrow> s
           | Some current \<Rightarrow>
               s\<lparr>queue := [Some current], originalQueue := [Some current],
                 currentIndex := Some 0\<rparr>))"

definition deleteSongFromQueue :: "string \<Rightarrow> player_state \<Rightarrow> error + player_state" where
  "deleteSongFromQueue songId s =
     (case filterE (id_differs songId) (queue s) of
        Inl e \<Rightarrow> Inl e
      | Inr newQueue \<Rightarrow>
     (case filterE (id_differs songId) (originalQueue s) of
        Inl e \<Rightarrow> Inl e
      | Inr newOriginal \<Rightarrow>
     (case
        (case currentIndex s of
           None \<Rightarrow> Inr None
         | Some c \<Rightarrow>
             (case entry_at (queue s) c of
                None \<Rightarrow> Inl TypeError
              | Some current \<Rightarrow>
                  if sid current = songId then Inr None
                  else map_sum id Some (findIndex (id_is (Some current)) newQueue)))
      of
        Inl e \<Rightarrow> Inl e
      | Inr newIndex \<Rightarrow>
          Inr (s\<lparr>queue := newQueue, originalQueue := newOriginal, currentIndex := newIndex,
                 isPlaying := (if newIndex = None then False else isPlaying s)\<rparr>))))"

definition updateSongInQueue :: "string \<Rightarrow> song \<Rightarrow> player_state \<Rightarrow> error + player_state" where
  "updateSongInQueue originalId newSong s =
     (let updateList = mapE (\<lambda>e. case e of
                                   None \<Rightarrow> Inl TypeError
                                 | Some x \<Rightarrow> Inr (Some (if sid x = originalId then newSong else x)))
      in case updateList (queue s) of
           Inl e \<Rightarrow> Inl e
         | Inr q \<Rightarrow> (case updateList (originalQueue s) of
                      Inl e \<Rightarrow> Inl e
                    | Inr oq \<Rightarrow> Inr (s\<lparr>queue := q, originalQueue := oq\<rparr>)))"

text \<open>
  The shuffle loop of \<open>toggleShuffle\<close>:
  \<^verbatim>\<open>for (let i = remaining.length - 1; i > 0; i--) { const j = Math.floor(Math.random() * (i + 1)); swap i, j }\<close>.
  \<open>rnd i\<close> is the value \<open>Math.random()\<close> returns in the iteration with loop variable \<open>i\<close>;
  \<open>Math.random()\<close> returns a number in \<open>[0, 1)\<close>, which is \<open>rnd_ok\<close>.
\<close>

definition rnd_ok :: "(nat \<Rightarrow> real) \<Rightarrow> bool" where
  "rnd_ok rnd = (\<forall>i. 0 \<le> rnd i \<and> rnd i < 1)"

definition swap :: "'a list \<Rightarrow> nat \<Rightarrow> nat \<Rightarrow> 'a list" where
  "swap xs i j = xs[i := xs ! j, j := xs ! i]"

fun fisher_yates :: "(nat \<Rightarrow> real) \<Rightarrow> nat \<Rightarrow> 'a list \<Rightarrow> 'a list" where
  "fisher_yates rnd 0 xs = xs"
| "fisher_yates rnd (Suc i) xs =
     (let j = nat \<lfloor>rnd (Suc i) * real (Suc i + 1)\<rfloor>
      in fisher_yates rnd i (swap xs (Suc i) j))"

text \<open>The callback \<open>s => s.id !== currentSong.id\<close>.\<close>

definition id_is_not :: "song option \<Rightarrow> song option \<Rightarrow> error + bool" where
  "id_is_not c s =
     (case s of None \<Rightarrow> Inl TypeError
      | Some s' \<Rightarrow> (case c of None \<Rightarrow> Inl TypeError | Some c' \<Rightarrow> Inr (sid s' \<noteq> sid c')))"

definition toggleShuffle :: "(nat \<Rightarrow> real) \<Rightarrow> player_state \<Rightarrow> error + player_state" where
  "toggleShuffle rnd s =
     (case currentIndex s of
        None \<Rightarrow> Inr s
      | Some c \<Rightarrow>
          if length (queue s) = 0 then Inr s
          else if isShuffled s then
            (let currentSong = entry_at (queue s) c
             in case findIndex (id_is currentSong) (originalQueue s) of
                  Inl e \<Rightarrow> Inl e
                | Inr originalIndex \<Rightarrow>
                    Inr (s\<lparr>isShuffled := False, queue := originalQueue s,
                           currentIndex := Some (if originalIndex \<noteq> - 1 then originalIndex else 0)\<rparr>))
          else
            (let currentSong = entry_at (queue s) c
             in case filterE (id_is_not currentSong) (queue s) of
                  Inl e \<Rightarrow> Inl e
                | Inr remaining \<Rightarrow>
                    Inr (s\<lparr>isShuffled := True,
                           queue := currentSong # fisher_yates rnd (length remaining - 1) remaining,
                           currentIndex := Some 0\<rparr>)))"

text \<open>
  The queue actions as values, and the store's \<open>set\<close>: an updater that throws commits
  nothing.
\<close>

datatype action =
    SetQueue "song list" string
  | SetCurrentIndex "int option"
  | ReorderQueue int int
  | AddToQueue song
  | PlayNext song
  | ClearQueue
  | BulkAddToQueue "song list" add_mode
  | DeleteSongFromQueue string
  | UpdateSongInQueue string song
  | ToggleShuffle "nat \<Rightarrow> real"

definition commit :: "player_state \<Rightarrow> error + player_state \<Rightarrow> player_state" where
  "commit s r = (case r of Inl e \<Rightarrow> s | Inr s' \<Rightarrow> s')"

fun dispatch :: "action \<Rightarrow> player_state \<Rightarrow> player_state" where
  "dispatch (SetQueue songs ttl) s = setQueue songs ttl s"
| "dispatch (SetCurrentIndex i) s = setCurrentIndex i s"
| "dispatch (ReorderQueue a b) s = reorderQueue a b s"
| "dispatch (AddToQueue sg) s = addToQueue sg s"
| "dispatch (PlayNext sg) s = commit s (playNext sg s)"
| "dispatch ClearQueue s = clearQueue s"
| "dispatch (BulkAddToQueue songs mode) s = commit s (bulkAddToQueue songs mode s)"
| "dispatch (DeleteSongFromQueue i) s = commit s (deleteSongFromQueue i s)"
| "dispatch (UpdateSongInQueue i sg) s = commit s (updateSongInQueue i sg s)"
| "dispatch (ToggleShuffle rnd) s = commit s (toggleShuffle rnd s)"

fun run :: "action list \<Rightarrow> player_state \<Rightarrow> player_state" where
  "run [] s = s"
| "run (a # as) s = run as (dispatch a s)"

section \<open>Invariants of the queue\<close>

primrec defined :: "'a option list \<Rightarrow> 'a list" where
  "defined [] = []"
| "defined (x # xs) = (case x of None \<Rightarrow> defined xs | Some y \<Rightarrow> y # defined xs)"

definition ids :: "song option list \<Rightarrow> string set" where
  "ids q = set (map sid (defined q))"

definition same_ids :: "player_state \<Rightarrow> bool" where
  "same_ids s = (ids (queue s) = ids (originalQueue s))"

definition index_ok :: "player_state \<Rightarrow> bool" where
  "index_ok s =
     (case currentIndex s of None \<Rightarrow> True | Some i \<Rightarrow> 0 \<le> i \<and> i < int (length (queue s)))"

definition all_songs :: "'a option list \<Rightarrow> bool" where
  "all_songs q = (None \<notin> set q)"

fun action_rnd_ok :: "action \<Rightarrow> bool" where
  "action_rnd_ok (ToggleShuffle rnd) = rnd_ok rnd"
| "action_rnd_ok _ = True"

definition well_formed :: "player_state \<Rightarrow> bool" where
  "well_formed s = (all_songs (queue s) \<and> all_songs (originalQueue s) \<and> same_ids s \<and> index_ok s)"

text \<open>
  The calls under which the bound on \<open>currentIndex\<close> is kept: a reorder between two
  positions of the active list, a bulk insert that is not the empty insert with no
  current track, and the random numbers of a shuffle in \<open>[0, 1)\<close>.
\<close>

fun action_in_range :: "player_state \<Rightarrow> action \<Rightarrow> bool" where
  "action_in_range s (ReorderQueue a b) =
     (0 \<le> a \<and> a < int (length (queue s)) \<and> 0 \<le> b \<and> b < int (length (queue s)))"
| "action_in_range s (AddToQueue sg) = True"
| "action_in_range s (PlayNext sg) = True"
| "action_in_range s (BulkAddToQueue songs mode) =
     (mode = END \<or> currentIndex s \<noteq> None \<or> songs \<noteq> [])"
| "action_in_range s (DeleteSongFromQueue i) = True"
| "action_in_range s (ToggleShuffle rnd) = rnd_ok rnd"
| "action_in_range s (SetQueue songs ttl) = False"
| "action_in_range s (SetCurrentIndex i) = False"
| "action_in_range s ClearQueue = False"
| "action_in_range s (UpdateSongInQueue i sg) = False"

fun valid_run :: "player_state \<Rightarrow> action list \<Rightarrow> bool" where
  "valid_run s [] = True"
| "valid_run s (a # as) = (action_in_range s a \<and> valid_run (dispatch a s) as)"

section \<open>Concrete tracks and states\<close>

definition song_A :: song where
  "song_A = \<lparr>sid = ''A'', title = ''Track A'', duration = 200,
             path = None, sfile = None, sfileHandle = None\<rparr>"

definition song_B :: song where
  "song_B = \<lparr>sid = ''B'', title = ''Track B'', duration = 180,
             path = None, sfile = None, sfileHandle = None\<rparr>"

definition song_C :: song where
  "song_C = \<lparr>sid = ''C'', title = ''Track C'', duration = 240,
             path = None, sfile = None, sfileHandle = None\<rparr>"

text \<open>The queue \<open>[A, B, C]\<close> after \<open>setQueue\<close>, with the first track current.\<close>

definition state_ABC :: player_state where
  "state_ABC = setCurrentIndex (Some 0) (setQueue [song_A, song_B, song_C] ''Queue'' initial_state)"

text \<open>
  A state within the bound whose canonical ordering is empty while the active one holds
  A, with shuffle on.
\<close>

definition state_unsynced :: player_state where
  "state_unsynced =
     \<lparr>queue = [Some song_A], originalQueue = [], queueTitle = ''Queue'',
      currentIndex = Some 0, isPlaying = False, isShuffled = True,
      songProgress = Map.empty, permissionErrorSong = None\<rparr>"

section \<open>The audio engine (audioBase)\<close>

text \<open>
  A JavaScript number where the code distinguishes the non-finite ones:
  \<open>player.duration\<close> is \<open>NaN\<close> while no duration is known.
\<close>

datatype jsnum = Num real | NaN | PosInf | NegInf

text \<open>
  The \<open>HTMLAudioElement\<close> the engine owns. The record holds the values the code assigns;
  what the media element then does with them is the platform's.
\<close>

record audio_element =
  player_src :: string
  player_currentTime :: real
  player_duration :: jsnum
  player_paused :: bool

definition isFinite :: "jsnum \<Rightarrow> bool" where
  "isFinite x = (case x of Num _ \<Rightarrow> True | _ \<Rightarrow> False)"

text \<open>Truthiness of a number: \<open>NaN\<close> and 0 are falsy.\<close>

definition truthy :: "jsnum \<Rightarrow> bool" where
  "truthy x = (case x of Num r \<Rightarrow> r \<noteq> 0 | NaN \<Rightarrow> False | PosInf \<Rightarrow> True | NegInf \<Rightarrow> True)"

fun math_min :: "jsnum \<Rightarrow> jsnum \<Rightarrow> jsnum" where
  "math_min NaN _ = NaN"
| "math_min _ NaN = NaN"
| "math_min NegInf _ = NegInf"
| "math_min _ NegInf = NegInf"
| "math_min PosInf y = y"
| "math_min x PosInf = x"
| "math_min (Num a) (Num b) = Num (min a b)"

text \<open>Assigning \<open>player.currentTime\<close>: a non-finite value throws \<open>TypeError\<close>.\<close>

definition set_currentTime :: "jsnum \<Rightarrow> audio_element \<Rightarrow> error + audio_element" where
  "set_currentTime x p =
     (case x of Num r \<Rightarrow> Inr (p\<lparr>player_currentTime := r\<rparr>) | _ \<Rightarrow> Inl TypeError)"

definition seek :: "jsnum \<Rightarrow> audio_element \<Rightarrow> error + audio_element" where
  "seek time p =
     (if isFinite time
      then (let safeTime = math_min time (if truthy (player_duration p) then player_duration p else time)
            in set_currentTime safeTime p)
      else Inr p)"

definition player_100 :: audio_element where
  "player_100 = \<lparr>player_src = ''file:///music/a.mp3'', player_currentTime = 30,
                 player_duration = Num 100, player_paused = False\<rparr>"

definition player_unknown :: audio_element where
  "player_unknown = \<lparr>player_src = ''file:///music/a.mp3'', player_currentTime = 0,
                     player_duration = NaN, player_paused = True\<rparr>"

section \<open>Source resolution (getSongFile, getSourceUrl)\<close>

text \<open>What \<open>getSongFile\<close> resolves to: a \<open>File\<close> object or a native path.\<close>

datatype rawSource = RawFile File | RawPath string

text \<open>
  The platform as the resolution sees it: whether \<open>window.electronAPI\<close> exists, whether
  its \<open>isElectron\<close> flag is \<open>true\<close>, and the identifier that \<open>URL.createObjectURL\<close>
  puts after the scheme \<open>blob:\<close> for a file.
\<close>

record env =
  electronAPI :: bool
  isElectron :: bool
  blobId :: "File \<Rightarrow> string"

definition createObjectURL :: "env \<Rightarrow> File \<Rightarrow> string" where
  "createObjectURL e f = ''blob:'' @ blobId e f"

definition startsWith_blob :: "string \<Rightarrow> bool" where
  "startsWith_blob u = (take 5 u = ''blob:'')"

definition getSongFile :: "env \<Rightarrow> song \<Rightarrow> error + rawSource option" where
  "getSongFile e sg =
     (if (case path sg of None \<Rightarrow> False | Some p \<Rightarrow> p \<noteq> []) \<and> isElectron e
      then Inr (map_option RawPath (path sg))
      else case sfile sg of
        Some f \<Rightarrow> Inr (Some (RawFile f))
      | None \<Rightarrow>
          (case sfileHandle sg of
             None \<Rightarrow> Inr None
           | Some h \<Rightarrow>
               if (case queryPermission h of
                     None \<Rightarrow> False
                   | Some perm \<Rightarrow>
                       perm \<noteq> Granted \<and>
                       (case requestPermission h of None \<Rightarrow> False | Some req \<Rightarrow> req \<noteq> Granted))
               then Inl PermissionDeniedError
               else (case getFile h of Inl err \<Rightarrow> Inl err | Inr f \<Rightarrow> Inr (Some (RawFile f)))))"

text \<open>\<open>getSourceUrl\<close> returns \<open>{ src, rawSource }\<close>; its \<open>catch\<close> turns every error into nulls.\<close>

definition getSourceUrl :: "env \<Rightarrow> song \<Rightarrow> string option \<times> rawSource option" where
  "getSourceUrl e sg =
     (if electronAPI e \<and> (case path sg of None \<Rightarrow> False | Some p \<Rightarrow> p \<noteq> [])
      then (map_option (\<lambda>p. ''file://'' @ p) (path sg), map_option RawPath (path sg))
      else case getSongFile e sg of
        Inl err \<Rightarrow> (None, None)
      | Inr None \<Rightarrow> (None, None)
      | Inr (Some (RawPath p)) \<Rightarrow> if p = [] then (None, None) else (Some p, Some (RawPath p))
      | Inr (Some (RawFile f)) \<Rightarrow> (Some (createObjectURL e f), Some (RawFile f)))"

section \<open>The audio controller (AudioController, effect 3: loadSong)\<close>

text \<open>
  The store, the three refs of the component and the audio element; \<open>revokedUrls\<close>,
  \<open>metadataSong\<close> and \<open>recentlyPlayed\<close> record the calls of \<open>URL.revokeObjectURL\<close>,
  \<open>updateMetadata\<close> and \<open>addRecentlyPlayed\<close>.
\<close>

record controller =
  store :: player_state
  playRequestRef :: int
  activeObjectUrlRef :: "string option"
  lastPlayedSourceRef :: "rawSource option"
  player :: audio_element
  revokedUrls :: "string list"
  metadataSong :: "song option"
  recentlyPlayed :: "song list"

text \<open>
  One run of \<open>loadSong\<close> between its start and the \<open>await\<close> of \<open>getSourceUrl\<close>: the
  request token and what the closure captured from its render.
\<close>

record load_request =
  requestId :: int
  reqSong :: song
  reqIsPlaying :: bool
  reqSongProgress :: "string \<rightharpoonup> real"

definition currentSong :: "player_state \<Rightarrow> song option" where
  "currentSong s = (case currentIndex s of None \<Rightarrow> None | Some i \<Rightarrow> entry_at (queue s) i)"

definition cleanupUrl :: "controller \<Rightarrow> controller" where
  "cleanupUrl w =
     (case activeObjectUrlRef w of
        None \<Rightarrow> w
      | Some u \<Rightarrow>
          (if u \<noteq> [] then w\<lparr>revokedUrls := u # revokedUrls w\<rparr> else w)
            \<lparr>activeObjectUrlRef := None\<rparr>)"

definition setIsPlaying :: "bool \<Rightarrow> player_state \<Rightarrow> player_state" where
  "setIsPlaying v s = s\<lparr>isPlaying := v\<rparr>"

definition consumeSongProgress :: "string \<Rightarrow> player_state \<Rightarrow> player_state" where
  "consumeSongProgress i s = s\<lparr>songProgress := (songProgress s)(i := None)\<rparr>"

definition saveLastPosition :: "string \<Rightarrow> real \<Rightarrow> player_state \<Rightarrow> player_state" where
  "saveLastPosition i time s = s\<lparr>songProgress := [i \<mapsto> time]\<rparr>"

definition addRecentlyPlayed :: "song \<Rightarrow> song list \<Rightarrow> song list" where
  "addRecentlyPlayed sg recent = take 10 (sg # filter (\<lambda>x. sid x \<noteq> sid sg) recent)"

text \<open>
  The start of \<open>loadSong\<close>, with \<open>now\<close> the value of \<open>Date.now()\<close>: without a current song
  it pauses and returns; otherwise it writes the token and awaits the resolution.
\<close>

definition loadSong_begin :: "int \<Rightarrow> controller \<Rightarrow> controller \<times> load_request option" where
  "loadSong_begin now w =
     (case currentSong (store w) of
        None \<Rightarrow>
          ((cleanupUrl (w\<lparr>player := (player w)\<lparr>player_paused := True\<rparr>\<rparr>))
             \<lparr>lastPlayedSourceRef := None\<rparr>, None)
      | Some sg \<Rightarrow>
          (w\<lparr>playRequestRef := now\<rparr>,
           Some \<lparr>requestId = now, reqSong = sg, reqIsPlaying = isPlaying (store w),
                 reqSongProgress = songProgress (store w)\<rparr>))"

definition isMetadataUpdate :: "rawSource option \<Rightarrow> rawSource option \<Rightarrow> bool" where
  "isMetadataUpdate lastPlayed rawSrc =
     (lastPlayed = rawSrc \<or>
      (case (rawSrc, lastPlayed) of
         (Some (RawFile f), Some (RawFile g)) \<Rightarrow> fname f = fname g \<and> fsize f = fsize g
       | _ \<Rightarrow> False))"

text \<open>The resume rule: the saved time is used when truthy, positive and more than ten
  seconds before the end, where a falsy \<open>duration\<close> of the song counts as 300.\<close>

definition resumeTime :: "load_request \<Rightarrow> real option" where
  "resumeTime r =
     (case reqSongProgress r (sid (reqSong r)) of
        None \<Rightarrow> None
      | Some savedTime \<Rightarrow>
          if savedTime \<noteq> 0 \<and> savedTime > 0 \<and>
             savedTime < (if duration (reqSong r) \<noteq> 0 then duration (reqSong r) else 300) - 10
          then Some savedTime else None)"

text \<open>
  The rest of \<open>loadSong\<close>, after \<open>getSourceUrl\<close> has resolved to \<open>(src, rawSrc)\<close>;
  \<open>playOk\<close> tells whether the promise of \<open>audioEngine.play()\<close> resolves.
\<close>

definition loadSong_resume ::
  "load_request \<Rightarrow> string option \<times> rawSource option \<Rightarrow> bool \<Rightarrow> controller \<Rightarrow> controller" where
  "loadSong_resume r res playOk w =
     (let (src, rawSrc) = res in
      if isMetadataUpdate (lastPlayedSourceRef w) rawSrc \<and> player_src (player w) \<noteq> []
      then (let w1 = w\<lparr>metadataSong := Some (reqSong r)\<rparr>
            in case src of
                 None \<Rightarrow> w1
               | Some u \<Rightarrow> if u \<noteq> [] \<and> startsWith_blob u
                           then w1\<lparr>revokedUrls := u # revokedUrls w1\<rparr> else w1)
      else
        (let w1 = (cleanupUrl w)\<lparr>lastPlayedSourceRef := rawSrc\<rparr>
         in case src of
              None \<Rightarrow> w1\<lparr>store := setIsPlaying False (store w1)\<rparr>
            | Some u \<Rightarrow>
                if u = [] then w1\<lparr>store := setIsPlaying False (store w1)\<rparr>
                else
                  (let w2 = (if startsWith_blob u then w1\<lparr>activeObjectUrlRef := Some u\<rparr> else w1)
                   in if playRequestRef w2 \<noteq> requestId r then w2
                      else
                        (let w3 = w2\<lparr>recentlyPlayed := addRecentlyPlayed (reqSong r) (recentlyPlayed w2),
                                     metadataSong := Some (reqSong r)\<rparr>;
                             w4 = w3\<lparr>player := (player w3)\<lparr>player_src := u\<rparr>\<rparr>;
                             w5 = (case resumeTime r of
                                     Some savedTime \<Rightarrow>
                                       w4\<lparr>player := (player w4)\<lparr>player_currentTime := savedTime\<rparr>,
                                          store := consumeSongProgress (sid (reqSong r)) (store w4)\<rparr>
                                   | None \<Rightarrow>
                                       w4\<lparr>player := (player w4)\<lparr>player_currentTime := 0\<rparr>\<rparr>)
                         in if reqIsPlaying r
                            then (if playOk
                                  then w5\<lparr>player := (player w5)\<lparr>player_paused := False\<rparr>\<rparr>
                                  else w5\<lparr>store := setIsPlaying False (store w5)\<rparr>)
                            else w5))))"

text \<open>The whole of \<open>loadSong\<close> when nothing else runs while it awaits the resolution.\<close>

definition loadSong :: "env \<Rightarrow> int \<Rightarrow> bool \<Rightarrow> controller \<Rightarrow> controller" where
  "loadSong e now playOk w =
     (case loadSong_begin now w of
        (w1, None) \<Rightarrow> w1
      | (w1, Some r) \<Rightarrow> loadSong_resume r (getSourceUrl e (reqSong r)) playOk w1)"

text \<open>
  Effect 2 of the component, which React runs again whenever \<open>isPlaying\<close> has changed:
  it calls \<open>audioEngine.play()\<close> or \<open>audioEngine.pause()\<close>. A rejection of \<open>play()\<close> named
  \<open>NotAllowedError\<close> clears \<open>isPlaying\<close>; any other rejection is ignored.
\<close>

datatype play_outcome = PlayResolved | PlayNotAllowed | PlayRejected

definition playPauseEffect :: "play_outcome \<Rightarrow> controller \<Rightarrow> controller" where
  "playPauseEffect outcome w =
     (if isPlaying (store w)
      then (case outcome of
              PlayResolved \<Rightarrow> w\<lparr>player := (player w)\<lparr>player_paused := False\<rparr>\<rparr>
            | PlayNotAllowed \<Rightarrow> w\<lparr>store := setIsPlaying False (store w)\<rparr>
            | PlayRejected \<Rightarrow> w)
      else w\<lparr>player := (player w)\<lparr>player_paused := True\<rparr>\<rparr>)"

section \<open>Concrete controllers\<close>

definition player_empty :: audio_element where
  "player_empty = \<lparr>player_src = [], player_currentTime = 0,
                   player_duration = NaN, player_paused = True\<rparr>"

definition controller_of :: "player_state \<Rightarrow> controller" where
  "controller_of st =
     \<lparr>store = st, playRequestRef = 0, activeObjectUrlRef = None, lastPlayedSourceRef = None,
      player = player_empty, revokedUrls = [], metadataSong = None, recentlyPlayed = []\<rparr>"

definition web_env :: env where
  "web_env = \<lparr>electronAPI = False, isElectron = False, blobId = fname\<rparr>"

text \<open>A track known only by a file handle whose permission has lapsed: the query
  answers \<open>prompt\<close>, the request is refused, and \<open>getFile()\<close> would reject.\<close>

definition song_locked :: song where
  "song_locked = \<lparr>sid = ''L'', title = ''Locked'', duration = 200, path = None, sfile = None,
                  sfileHandle = Some \<lparr>queryPermission = Some Prompt,
                                      requestPermission = Some Denied,
                                      getFile = Inl NotAllowedError\<rparr>\<rparr>"

definition state_locked :: player_state where
  "state_locked =
     setIsPlaying True (setCurrentIndex (Some 0) (setQueue [song_locked] ''Queue'' initial_state))"

text \<open>A track whose catalog duration is 0, with a saved position of 100 seconds.\<close>

definition song_Z :: song where
  "song_Z = \<lparr>sid = ''Z'', title = ''No duration'', duration = 0,
             path = Some ''/music/z.mp3'', sfile = None, sfileHandle = None\<rparr>"

definition electron_env :: env where
  "electron_env = \<lparr>electronAPI = True, isElectron = True, blobId = fname\<rparr>"

definition state_Z :: player_state where
  "state_Z =
     saveLastPosition ''Z'' 100
       (setCurrentIndex (Some 0) (setQueue [song_Z] ''Queue'' initial_state))"


text \<open>
  Three loads started at 1000, 1001 and 1002 while A plays and the user skips to B and
  to C. The resolution for C completes first, with a \<open>File\<close>; then the one for A, with
  nulls (its file could not be read); then the one for B, with a path.
\<close>

definition state_playing :: player_state where
  "state_playing = setIsPlaying True state_ABC"

definition file_C :: File where
  "file_C = \<lparr>fname = ''c.mp3'', fsize = 4000000, fident = 3\<rparr>"

definition race_r1 :: load_request where
  "race_r1 = \<lparr>requestId = 1000, reqSong = song_A, reqIsPlaying = True,
              reqSongProgress = Map.empty\<rparr>"

definition race_r2 :: load_request where
  "race_r2 = \<lparr>requestId = 1001, reqSong = song_B, reqIsPlaying = True,
              reqSongProgress = Map.empty\<rparr>"

definition race_r3 :: load_request where
  "race_r3 = \<lparr>requestId = 1002, reqSong = song_C, reqIsPlaying = True,
              reqSongProgress = Map.empty\<rparr>"

definition race_w1 :: controller where
  "race_w1 = (controller_of state_playing)\<lparr>playRequestRef := 1000\<rparr>"

definition race_w2 :: controller where
  "race_w2 = race_w1\<lparr>store := setCurrentIndex (Some 1) state_playing, playRequestRef := 1001\<rparr>"

definition race_w3 :: controller where
  "race_w3 = race_w2\<lparr>store := setCurrentIndex (Some 2) state_playing, playRequestRef := 1002\<rparr>"

definition race_w4 :: controller where
  "race_w4 = loadSong_resume race_r3 (Some (createObjectURL web_env file_C), Some (RawFile file_C))
               True race_w3"

definition race_w5 :: controller where
  "race_w5 = loadSong_resume race_r1 (None, None) True race_w4"

definition race_w6 :: controller where
  "race_w6 = loadSong_resume race_r2 (Some ''file:///music/b.mp3'', Some (RawPath ''/music/b.mp3''))
               True (playPauseEffect PlayResolved race_w5)"

text \<open>The load of Z: its request, and the controller holding its token.\<close>

definition request_Z :: load_request where
  "request_Z = \<lparr>requestId = 1000, reqSong = song_Z, reqIsPlaying = False,
                reqSongProgress = [''Z'' \<mapsto> 100]\<rparr>"

definition controller_Z :: controller where
  "controller_Z = (controller_of state_Z)\<lparr>playRequestRef := 1000\<rparr>"

section \<open>Session restore at startup (App, initApp)\<close>

text \<open>
  The record under \<open>asteroid_session\<close>, with the fields \<open>initApp\<close> reads (it reads neither
  \<open>currentTime\<close> nor \<open>repeatMode\<close>). \<open>index\<close> is \<open>None\<close> for \<open>null\<close>; a missing \<open>queueIds\<close>
  acts as the empty list and a missing \<open>index\<close> as \<open>null\<close>.
\<close>

record session =
  queueIds :: "string list"
  index :: "int option"
  session_isShuffled :: bool
  session_queueTitle :: string

text \<open>
  What \<open>localStorage.getItem('asteroid_session')\<close> returns: \<open>null\<close> (\<open>NoItem\<close>), the empty
  text (\<open>EmptyText\<close>, falsy like \<open>null\<close>), a non-empty text that \<open>JSON.parse\<close> rejects or
  that does not parse to a session record (\<open>Malformed\<close>: the \<open>catch\<close> or the test of
  \<open>queueIds\<close> leaves the store alone), or a session.
\<close>

datatype saved_session = NoItem | EmptyText | Malformed | Saved session

text \<open>
  \<open>loadSongsRange(offset, limit)\<close> reads the songs store with a cursor. \<open>records\<close> are the
  records of the store in cursor order; \<open>None\<close> stands for a database that cannot be
  opened or read, for which the \<open>catch\<close> returns \<open>[]\<close>. Every record is copied without
  its \<open>file\<close> field. The cursor first skips \<open>offset\<close> records when \<open>offset > 0\<close>; the loop
  ends when the store is exhausted, or after a push when \<open>limit !== -1\<close> and
  \<open>items.length >= limit\<close>.
\<close>

definition storedCopy :: "song \<Rightarrow> song" where
  "storedCopy s = s\<lparr>sfile := None\<rparr>"

fun cursorLoop :: "int \<Rightarrow> song list \<Rightarrow> song list \<Rightarrow> song list" where
  "cursorLoop limit items [] = items"
| "cursorLoop limit items (s # rest) =
     (let pushed = items @ [storedCopy s]
      in if limit \<noteq> - 1 \<and> int (length pushed) \<ge> limit then pushed
         else cursorLoop limit pushed rest)"

definition loadSongsRange :: "int \<Rightarrow> int \<Rightarrow> song list option \<Rightarrow> song list" where
  "loadSongsRange offset limit db =
     (case db of
        None \<Rightarrow> []
      | Some records \<Rightarrow>
          cursorLoop limit [] (if offset > 0 then drop (nat offset) records else records))"

text \<open>\<open>new Map(initialSongs.map(s => [s.id, s])).get(id)\<close>: the last song with that id.\<close>

definition queueMap_get :: "song list \<Rightarrow> string \<Rightarrow> song option" where
  "queueMap_get initialSongs i = find (\<lambda>x. sid x = i) (rev initialSongs)"

definition restoredQueue :: "song list \<Rightarrow> session \<Rightarrow> song list" where
  "restoredQueue initialSongs sess = List.map_filter (queueMap_get initialSongs) (queueIds sess)"

text \<open>
  The part of \<open>initApp\<close> that sets up the queue. \<open>initialSongs\<close> is what
  \<open>loadSongsRange(0, 50)\<close> returns: the first 50 records of the songs store, not the whole
  catalog. The rest of the catalog is loaded later into the library only.
\<close>

definition initApp_restore ::
  "song list option \<Rightarrow> saved_session \<Rightarrow> player_state \<Rightarrow> player_state" where
  "initApp_restore db savedSession s =
     (let initialSongs = loadSongsRange 0 50 db in
      if length initialSongs > 0 then
        (case savedSession of
           NoItem \<Rightarrow> setQueue initialSongs ''All Songs'' s
         | EmptyText \<Rightarrow> setQueue initialSongs ''All Songs'' s
         | Malformed \<Rightarrow> s
         | Saved sess \<Rightarrow>
             if length (queueIds sess) > 0 then
               (let restored = restoredQueue initialSongs sess
                in if length restored > 0 then
                     (let s1 = setQueue restored
                                 (if session_queueTitle sess \<noteq> [] then session_queueTitle sess
                                  else ''Queue'') s;
                          s2 = (if session_isShuffled sess then s1\<lparr>isShuffled := True\<rparr> else s1);
                          s3 = setOriginalQueue restored s2
                      in case index sess of
                           None \<Rightarrow> s3
                         | Some i \<Rightarrow>
                             if i < int (length restored) then setCurrentIndex (Some i) s3
                             else s3)
                   else s)
             else s)
      else s)"





section \<open>Sets of identifiers under the array primitives\<close>

lemma defined_append: "defined (xs @ ys) = defined xs @ defined ys"
  by (induction xs) (auto split: option.splits)

lemma ids_append: "ids (xs @ ys) = ids xs \<union> ids ys"
  by (simp add: ids_def defined_append)

lemma ids_Nil: "ids [] = {}"
  by (simp add: ids_def)

lemma ids_Cons: "ids (x # xs) = (case x of None \<Rightarrow> {} | Some y \<Rightarrow> {sid y}) \<union> ids xs"
  by (simp add: ids_def split: option.splits)

lemma ids_map_Some: "ids (map Some songs) = sid ` set songs"
  by (induction songs) (auto simp: ids_def)

lemma ids_take_drop: "ids (take k xs) \<union> ids (drop k xs) = ids xs"
  by (metis append_take_drop_id ids_append)

lemma ids_splice_insert: "ids (splice_insert xs k ys) = ids xs \<union> ids ys"
  using ids_take_drop [of "splice_start (length xs) k" xs]
  by (auto simp: splice_insert_def Let_def ids_append)

lemma ids_remove1_reinsert:
  assumes "splice_remove1 xs a = (rest, removedList)"
  shows "ids rest \<union> ids [case removedList of [] \<Rightarrow> None | x # _ \<Rightarrow> x] = ids xs"
proof -
  define k where "k = splice_start (length xs) a"
  have rest: "rest = take k xs @ drop (Suc k) xs" and rem: "removedList = take 1 (drop k xs)"
    using assms by (auto simp: splice_remove1_def Let_def k_def)
  show ?thesis
  proof (cases "k < length xs")
    case True
    then have "xs = take k xs @ [xs ! k] @ drop (Suc k) xs"
      by (simp add: id_take_nth_drop)
    then have "ids xs = ids (take k xs) \<union> ids [xs ! k] \<union> ids (drop (Suc k) xs)"
      by (metis ids_append sup_assoc)
    moreover have "removedList = [xs ! k]"
      using True rem by (simp add: take_Suc hd_drop_conv_nth)
    ultimately show ?thesis by (auto simp: rest ids_append)
  next
    case False
    then show ?thesis by (simp add: rest rem ids_append ids_Cons ids_Nil)
  qed
qed

lemma ids_reorderQueue: "ids (queue (reorderQueue a b s)) = ids (queue s)"
proof -
  obtain rest removedList where sp: "splice_remove1 (queue s) a = (rest, removedList)"
    by (cases "splice_remove1 (queue s) a")
  show ?thesis
    using ids_remove1_reinsert [OF sp]
    by (simp add: reorderQueue_def sp Let_def ids_splice_insert)
qed

lemma same_ids_reorderQueue: "same_ids s \<Longrightarrow> same_ids (reorderQueue a b s)"
proof -
  assume a: "same_ids s"
  obtain rest removedList where sp: "splice_remove1 (queue s) a = (rest, removedList)"
    by (cases "splice_remove1 (queue s) a")
  have "originalQueue (reorderQueue a b s) = (if isShuffled s then originalQueue s else queue (reorderQueue a b s))"
    by (simp add: reorderQueue_def sp Let_def)
  then show ?thesis using a ids_reorderQueue [of a b s]
    by (auto simp: same_ids_def)
qed

lemma filterE_Inr:
  "filterE p xs = Inr ys \<Longrightarrow> (\<forall>x \<in> set xs. \<exists>b. p x = Inr b) \<and> ys = filter (\<lambda>x. p x = Inr True) xs"
proof (induction xs arbitrary: ys)
  case Nil
  then show ?case by simp
next
  case (Cons x xs)
  then show ?case
    by (auto split: sum.splits if_splits)
qed

lemma filterE_total:
  "\<forall>x \<in> set xs. \<exists>b. p x = Inr b \<Longrightarrow> filterE p xs = Inr (filter (\<lambda>x. p x = Inr True) xs)"
  by (induction xs) (auto split: sum.splits)

lemma defined_mem: "x \<in> set (defined q) \<longleftrightarrow> Some x \<in> set q"
  by (induction q) (auto split: option.splits)

lemma ids_iff: "i \<in> ids q \<longleftrightarrow> (\<exists>x. Some x \<in> set q \<and> sid x = i)"
  by (auto simp: ids_def defined_mem)

lemma filterE_id_differs:
  assumes "filterE (id_differs i) xs = Inr ys"
  shows "all_songs xs" and "all_songs ys" and "ids ys = ids xs - {i}"
    and "ys = filter (\<lambda>e. \<exists>x. e = Some x \<and> sid x \<noteq> i) xs"
proof -
  from filterE_Inr [OF assms]
  have tot: "\<forall>x \<in> set xs. \<exists>b. id_differs i x = Inr b"
    and ys: "ys = filter (\<lambda>x. id_differs i x = Inr True) xs" by auto
  show a: "all_songs xs"
    unfolding all_songs_def
  proof
    assume "None \<in> set xs"
    with tot show False by (auto simp: id_differs_def)
  qed
  have eq: "(\<lambda>x. id_differs i x = Inr True) = (\<lambda>e. \<exists>x. e = Some x \<and> sid x \<noteq> i)"
    by (auto simp: id_differs_def fun_eq_iff split: option.splits)
  show f: "ys = filter (\<lambda>e. \<exists>x. e = Some x \<and> sid x \<noteq> i) xs"
    using ys by (simp add: eq)
  show "all_songs ys" using a f by (auto simp: all_songs_def)
  show "ids ys = ids xs - {i}"
    by (auto simp: ids_iff f)
qed

lemma filterE_id_is_not:
  assumes "filterE (id_is_not c) xs = Inr ys" and "xs \<noteq> []"
  shows "\<exists>c'. c = Some c' \<and> all_songs xs \<and> ys = filter (\<lambda>e. \<exists>x. e = Some x \<and> sid x \<noteq> sid c') xs"
proof -
  from filterE_Inr [OF assms(1)]
  have tot: "\<forall>x \<in> set xs. \<exists>b. id_is_not c x = Inr b"
    and ys: "ys = filter (\<lambda>x. id_is_not c x = Inr True) xs" by auto
  from assms(2) obtain x0 where "x0 \<in> set xs" by (cases xs) auto
  with tot obtain c' where c: "c = Some c'"
    by (cases c) (auto simp: id_is_not_def split: option.splits)
  have a: "all_songs xs"
    unfolding all_songs_def
  proof
    assume "None \<in> set xs"
    with tot show False by (auto simp: id_is_not_def)
  qed
  have eq: "(\<lambda>x. id_is_not (Some c') x = Inr True) = (\<lambda>e. \<exists>x. e = Some x \<and> sid x \<noteq> sid c')"
    by (auto simp: id_is_not_def fun_eq_iff split: option.splits)
  show ?thesis using c a ys by (simp add: eq)
qed

lemma findIndexFrom_range:
  "findIndexFrom p xs k = Inr r \<Longrightarrow> r = - 1 \<or> (k \<le> r \<and> r < k + int (length xs))"
proof (induction xs arbitrary: k)
  case Nil
  then show ?case by simp
next
  case (Cons x xs)
  then show ?case
    by (fastforce split: sum.splits if_splits)
qed

lemma findIndexFrom_hit:
  "findIndexFrom p xs k = Inr r \<Longrightarrow> 0 \<le> k \<Longrightarrow> r \<noteq> - 1 \<Longrightarrow> p (xs ! nat (r - k)) = Inr True"
proof (induction xs arbitrary: k)
  case Nil
  then show ?case by simp
next
  case (Cons x xs)
  show ?case
  proof (cases "p x")
    case (Inl e)
    with Cons.prems show ?thesis by simp
  next
    case (Inr b)
    show ?thesis
    proof (cases b)
      case True
      with Inr Cons.prems show ?thesis by simp
    next
      case False
      with Inr Cons.prems have rec: "findIndexFrom p xs (k + 1) = Inr r" by simp
      from findIndexFrom_range [OF rec] Cons.prems have "k + 1 \<le> r" by auto
      then have "nat (r - k) = Suc (nat (r - (k + 1)))" by simp
      moreover from Cons.IH [OF rec] Cons.prems have "p (xs ! nat (r - (k + 1))) = Inr True" by simp
      ultimately show ?thesis by simp
    qed
  qed
qed

lemma findIndexFrom_miss:
  "findIndexFrom p xs k = Inr (- 1) \<Longrightarrow> 0 \<le> k \<Longrightarrow> \<forall>x \<in> set xs. p x = Inr False"
proof (induction xs arbitrary: k)
  case Nil
  then show ?case by simp
next
  case (Cons x xs)
  then show ?case
    by (auto split: sum.splits if_splits)
qed

lemma findIndexFrom_total:
  "\<forall>x \<in> set xs. \<exists>b. p x = Inr b \<Longrightarrow> \<exists>r. findIndexFrom p xs k = Inr r"
  by (induction xs arbitrary: k) (auto split: sum.splits)

lemma mapE_Inr:
  "mapE f xs = Inr ys \<Longrightarrow> length ys = length xs \<and> (\<forall>n < length xs. f (xs ! n) = Inr (ys ! n))"
proof (induction xs arbitrary: ys)
  case Nil
  then show ?case by simp
next
  case (Cons x xs)
  then show ?case
    by (auto split: sum.splits simp: nth_Cons split: nat.splits)
qed

lemma swap_mset: "i < length xs \<Longrightarrow> j < length xs \<Longrightarrow> mset (swap xs i j) = mset xs"
  unfolding swap_def by (metis mset_swap)

lemma swap_length: "length (swap xs i j) = length xs"
  by (simp add: swap_def)

lemma random_index_le:
  assumes "0 \<le> u" and "u < 1"
  shows "nat \<lfloor>u * real (Suc n)\<rfloor> \<le> n"
proof -
  have "u * real (Suc n) < real (Suc n)"
    using assms by simp
  then have "\<lfloor>u * real (Suc n)\<rfloor> < int (Suc n)"
    by (simp add: floor_less_iff)
  then show ?thesis by simp
qed

lemma fisher_yates_mset:
  "rnd_ok rnd \<Longrightarrow> n < length xs \<Longrightarrow> mset (fisher_yates rnd n xs) = mset xs"
proof (induction n arbitrary: xs)
  case 0
  then show ?case by simp
next
  case (Suc n)
  define j where "j = nat \<lfloor>rnd (Suc n) * real (Suc n + 1)\<rfloor>"
  have "j \<le> Suc n"
    using random_index_le [of "rnd (Suc n)" "Suc n"] Suc.prems(1)
    by (simp add: j_def rnd_ok_def)
  with Suc.prems have j: "j < length xs" by simp
  have "mset (fisher_yates rnd n (swap xs (Suc n) j)) = mset (swap xs (Suc n) j)"
    using Suc.IH [of "swap xs (Suc n) j"] Suc.prems by (simp add: swap_length)
  also have "\<dots> = mset xs"
    using swap_mset [of "Suc n" xs j] Suc.prems j by simp
  finally show ?case by (simp add: j_def Let_def)
qed

lemma fisher_yates_perm:
  assumes "rnd_ok rnd"
  shows "mset (fisher_yates rnd (length xs - 1) xs) = mset xs"
proof (cases xs)
  case Nil
  then show ?thesis by simp
next
  case (Cons a list)
  then show ?thesis using fisher_yates_mset [OF assms, of "length xs - 1" xs] by simp
qed

section \<open>The two orderings hold the same identifiers\<close>

lemma same_ids_setQueue: "same_ids (setQueue songs ttl s)"
  by (simp add: same_ids_def setQueue_def)

lemma same_ids_setCurrentIndex: "same_ids s \<Longrightarrow> same_ids (setCurrentIndex i s)"
  by (simp add: same_ids_def setCurrentIndex_def)

lemma same_ids_addToQueue: "same_ids s \<Longrightarrow> same_ids (addToQueue sg s)"
  by (simp add: same_ids_def addToQueue_def ids_append)

lemma same_ids_clearQueue: "same_ids s \<Longrightarrow> same_ids (clearQueue s)"
  by (simp add: same_ids_def clearQueue_def split: option.splits)

lemma same_ids_bulkAddToQueue:
  "same_ids s \<Longrightarrow> bulkAddToQueue songs mode s = Inr s' \<Longrightarrow> same_ids s'"
  by (auto simp: same_ids_def bulkAddToQueue_def Let_def ids_append ids_splice_insert
           split: add_mode.splits option.splits sum.splits if_splits)

lemma same_ids_playNext:
  "same_ids s \<Longrightarrow> playNext sg s = Inr s' \<Longrightarrow> same_ids s'"
  by (auto simp: same_ids_def playNext_def Let_def ids_append ids_splice_insert
           split: option.splits sum.splits if_splits)

lemma same_ids_deleteSongFromQueue:
  assumes "same_ids s" and "deleteSongFromQueue i s = Inr s'"
  shows "same_ids s'"
proof -
  from assms(2) obtain q oq where
    q: "filterE (id_differs i) (queue s) = Inr q" and
    oq: "filterE (id_differs i) (originalQueue s) = Inr oq" and
    s': "queue s' = q" "originalQueue s' = oq"
    by (auto simp: deleteSongFromQueue_def split: sum.splits)
  show ?thesis
    using assms(1) filterE_id_differs(3) [OF q] filterE_id_differs(3) [OF oq]
    by (simp add: same_ids_def s')
qed

lemma ids_updateList:
  "mapE (\<lambda>e. case e of None \<Rightarrow> Inl TypeError
                | Some x \<Rightarrow> Inr (Some (if sid x = i then newSong else x))) xs = Inr ys
   \<Longrightarrow> ids ys = (\<lambda>j. if j = i then sid newSong else j) ` ids xs"
proof (induction xs arbitrary: ys)
  case Nil
  then show ?case by (simp add: ids_Nil)
next
  case (Cons x xs)
  then show ?case
    by (auto simp: ids_Cons split: sum.splits option.splits if_splits)
qed

lemma same_ids_updateSongInQueue:
  assumes "same_ids s" and "updateSongInQueue i newSong s = Inr s'"
  shows "same_ids s'"
proof -
  let ?u = "mapE (\<lambda>e. case e of None \<Rightarrow> Inl TypeError
                | Some x \<Rightarrow> Inr (Some (if sid x = i then newSong else x)))"
  from assms(2) obtain q oq where
    q: "?u (queue s) = Inr q" and oq: "?u (originalQueue s) = Inr oq" and
    s': "queue s' = q" "originalQueue s' = oq"
    by (auto simp: updateSongInQueue_def Let_def split: sum.splits)
  show ?thesis
    using assms(1) ids_updateList [OF q] ids_updateList [OF oq]
    by (simp add: same_ids_def s')
qed

lemma entry_at_Some: "entry_at xs c = Some x \<Longrightarrow> Some x \<in> set xs"
proof -
  assume a: "entry_at xs c = Some x"
  then have "nat c < length xs" and "xs ! nat c = Some x"
    by (auto simp: entry_at_def split: if_splits)
  then show ?thesis by (metis nth_mem)
qed

lemma ids_mset_cong: "mset xs = mset ys \<Longrightarrow> ids xs = ids ys"
  by (auto simp: ids_iff dest: mset_eq_setD)

lemma toggleShuffle_on_queue:
  assumes "rnd_ok rnd" and "toggleShuffle rnd s = Inr s'"
    and "currentIndex s = Some c" and "queue s \<noteq> []" and "\<not> isShuffled s"
  shows "\<exists>cur remaining. entry_at (queue s) c = Some cur \<and> all_songs (queue s) \<and>
           remaining = filter (\<lambda>e. \<exists>x. e = Some x \<and> sid x \<noteq> sid cur) (queue s) \<and>
           queue s' = Some cur # fisher_yates rnd (length remaining - 1) remaining \<and>
           originalQueue s' = originalQueue s \<and> currentIndex s' = Some 0 \<and> isShuffled s'"
proof -
  from assms(2-5) obtain remaining where
    f: "filterE (id_is_not (entry_at (queue s) c)) (queue s) = Inr remaining" and
    s': "s' = s\<lparr>isShuffled := True,
                queue := entry_at (queue s) c # fisher_yates rnd (length remaining - 1) remaining,
                currentIndex := Some 0\<rparr>"
    by (auto simp: toggleShuffle_def Let_def split: sum.splits)
  from filterE_id_is_not [OF f assms(4)] obtain cur where
    "entry_at (queue s) c = Some cur" "all_songs (queue s)"
    "remaining = filter (\<lambda>e. \<exists>x. e = Some x \<and> sid x \<noteq> sid cur) (queue s)"
    by blast
  then show ?thesis using s' by simp
qed

lemma same_ids_toggleShuffle:
  assumes "same_ids s" and "rnd_ok rnd" and "toggleShuffle rnd s = Inr s'"
  shows "same_ids s'"
proof (cases "currentIndex s = None \<or> queue s = []")
  case True
  with assms(3) have "s' = s"
    by (auto simp: toggleShuffle_def split: option.splits)
  with assms(1) show ?thesis by simp
next
  case False
  then obtain c where c: "currentIndex s = Some c" and ne: "queue s \<noteq> []" by auto
  show ?thesis
  proof (cases "isShuffled s")
    case True
    with assms(3) c ne have "queue s' = originalQueue s" "originalQueue s' = originalQueue s"
      by (auto simp: toggleShuffle_def Let_def split: sum.splits)
    then show ?thesis by (simp add: same_ids_def)
  next
    case False
    from toggleShuffle_on_queue [OF assms(2,3) c ne False] obtain cur remaining where
      cur: "entry_at (queue s) c = Some cur" and
      rem: "remaining = filter (\<lambda>e. \<exists>x. e = Some x \<and> sid x \<noteq> sid cur) (queue s)" and
      q: "queue s' = Some cur # fisher_yates rnd (length remaining - 1) remaining" and
      oq: "originalQueue s' = originalQueue s"
      by blast
    have "ids (fisher_yates rnd (length remaining - 1) remaining) = ids remaining"
      by (rule ids_mset_cong) (rule fisher_yates_perm [OF assms(2)])
    moreover have "ids remaining = ids (queue s) - {sid cur}"
      by (auto simp: rem ids_iff)
    moreover have "sid cur \<in> ids (queue s)"
      using entry_at_Some [OF cur] by (auto simp: ids_iff)
    ultimately have "ids (queue s') = ids (queue s)"
      by (auto simp: q ids_Cons)
    with assms(1) oq show ?thesis by (simp add: same_ids_def)
  qed
qed

lemma same_ids_dispatch:
  "same_ids s \<Longrightarrow> action_rnd_ok a \<Longrightarrow> same_ids (dispatch a s)"
proof (cases a)
  case (PlayNext sg)
  assume "same_ids s"
  then show ?thesis using PlayNext same_ids_playNext [of s sg]
    by (cases "playNext sg s") (auto simp: commit_def)
next
  case (BulkAddToQueue songs mode)
  assume "same_ids s"
  then show ?thesis using BulkAddToQueue same_ids_bulkAddToQueue [of s songs mode]
    by (cases "bulkAddToQueue songs mode s") (auto simp: commit_def)
next
  case (DeleteSongFromQueue i)
  assume "same_ids s"
  then show ?thesis using DeleteSongFromQueue same_ids_deleteSongFromQueue [of s i]
    by (cases "deleteSongFromQueue i s") (auto simp: commit_def)
next
  case (UpdateSongInQueue i sg)
  assume "same_ids s"
  then show ?thesis using UpdateSongInQueue same_ids_updateSongInQueue [of s i sg]
    by (cases "updateSongInQueue i sg s") (auto simp: commit_def)
next
  case (ToggleShuffle rnd)
  assume "same_ids s" "action_rnd_ok a"
  then show ?thesis using ToggleShuffle same_ids_toggleShuffle [of s rnd]
    by (cases "toggleShuffle rnd s") (auto simp: commit_def)
qed (simp_all add: same_ids_setQueue same_ids_setCurrentIndex same_ids_reorderQueue
       same_ids_addToQueue same_ids_clearQueue)

lemma same_ids_run_aux:
  "same_ids s \<Longrightarrow> list_all action_rnd_ok as \<Longrightarrow> same_ids (run as s)"
  by (induction as arbitrary: s) (simp_all add: same_ids_dispatch)

section \<open>The bound on the current index\<close>

lemma splice_start_in_range: "0 \<le> a \<Longrightarrow> a < int n \<Longrightarrow> splice_start n a = nat a"
  by (simp add: splice_start_def)

lemma mset_splice_insert: "mset (splice_insert xs k ys) = mset xs + mset ys"
proof -
  have "mset (take (splice_start (length xs) k) xs) + mset (drop (splice_start (length xs) k) xs) = mset xs"
    by (metis append_take_drop_id mset_append)
  then show ?thesis
    by (simp add: splice_insert_def Let_def add.commute add.left_commute)
qed

lemma queue_reorderQueue:
  "queue (reorderQueue a b s) =
     splice_insert (fst (splice_remove1 (queue s) a)) b
       [case snd (splice_remove1 (queue s) a) of [] \<Rightarrow> None | x # _ \<Rightarrow> x]"
  by (simp add: reorderQueue_def Let_def split: prod.splits)

lemma mset_queue_reorderQueue:
  assumes "0 \<le> a" and "a < int (length (queue s))"
  shows "mset (queue (reorderQueue a b s)) = mset (queue s)"
proof -
  let ?xs = "queue s"
  have k: "splice_start (length ?xs) a = nat a" and lt: "nat a < length ?xs"
    using assms by (simp_all add: splice_start_in_range)
  have sp: "splice_remove1 ?xs a = (take (nat a) ?xs @ drop (Suc (nat a)) ?xs, [?xs ! nat a])"
    using lt by (simp add: splice_remove1_def k Let_def take_Suc hd_drop_conv_nth)
  have "?xs = take (nat a) ?xs @ ?xs ! nat a # drop (Suc (nat a)) ?xs"
    using lt by (rule id_take_nth_drop)
  then have "mset ?xs = mset (take (nat a) ?xs @ drop (Suc (nat a)) ?xs) + {#?xs ! nat a#}"
    by (metis mset.simps(2) mset_append add_mset_add_single union_mset_add_mset_right)
  then show ?thesis
    by (simp add: queue_reorderQueue sp mset_splice_insert)
qed

lemma all_songs_mset_cong: "mset xs = mset ys \<Longrightarrow> all_songs xs = all_songs ys"
  by (auto simp: all_songs_def dest: mset_eq_setD)

lemma currentIndex_reorderQueue:
  "currentIndex (reorderQueue a b s) =
     (if currentIndex s = Some a then Some b
      else case currentIndex s of
             None \<Rightarrow> None
           | Some c \<Rightarrow> if a < c \<and> b \<ge> c then Some (c - 1)
                      else if a > c \<and> b \<le> c then Some (c + 1) else Some c)"
  by (simp add: reorderQueue_def Let_def split: prod.splits)

lemma originalQueue_reorderQueue:
  "originalQueue (reorderQueue a b s) =
     (if isShuffled s then originalQueue s else queue (reorderQueue a b s))"
  by (simp add: reorderQueue_def Let_def split: prod.splits)

lemma well_formed_reorderQueue:
  assumes "well_formed s" and "0 \<le> a" and "a < int (length (queue s))"
    and "0 \<le> b" and "b < int (length (queue s))"
  shows "well_formed (reorderQueue a b s)"
proof -
  have m: "mset (queue (reorderQueue a b s)) = mset (queue s)"
    using assms(2,3) by (rule mset_queue_reorderQueue)
  then have len: "length (queue (reorderQueue a b s)) = length (queue s)"
    by (rule mset_eq_length)
  have q: "all_songs (queue (reorderQueue a b s))"
    using assms(1) all_songs_mset_cong [OF m] by (simp add: well_formed_def)
  have oq: "all_songs (originalQueue (reorderQueue a b s))"
    using assms(1) q by (simp add: originalQueue_reorderQueue well_formed_def)
  have ids: "same_ids (reorderQueue a b s)"
    using assms(1) by (simp add: well_formed_def same_ids_reorderQueue)
  have "index_ok (reorderQueue a b s)"
    using assms
    by (auto simp: index_ok_def well_formed_def len currentIndex_reorderQueue split: option.splits)
  with q oq ids show ?thesis by (simp add: well_formed_def)
qed

lemma all_songs_splice_insert:
  "all_songs xs \<Longrightarrow> all_songs (splice_insert xs k (map Some ys))"
proof -
  assume a: "all_songs xs"
  have "set_mset (mset (splice_insert xs k (map Some ys))) = set_mset (mset xs + mset (map Some ys))"
    by (simp only: mset_splice_insert)
  then have "set (splice_insert xs k (map Some ys)) = set xs \<union> Some ` set ys"
    by simp
  with a show ?thesis by (auto simp: all_songs_def)
qed

lemma length_splice_insert: "length (splice_insert xs k ys) = length xs + length ys"
proof -
  have "size (mset (splice_insert xs k ys)) = size (mset xs + mset ys)"
    by (simp only: mset_splice_insert)
  then show ?thesis by simp
qed

lemma all_songs_map_Some: "all_songs (map Some ys)"
  by (auto simp: all_songs_def)

lemma all_songs_append: "all_songs (xs @ ys) \<longleftrightarrow> all_songs xs \<and> all_songs ys"
  by (auto simp: all_songs_def)

lemma well_formed_addToQueue: "well_formed s \<Longrightarrow> well_formed (addToQueue sg s)"
  by (auto simp: well_formed_def same_ids_addToQueue)
     (auto simp: addToQueue_def all_songs_def index_ok_def split: option.splits)

lemma well_formed_bulkAddToQueue:
  assumes "well_formed s" and "bulkAddToQueue songs mode s = Inr s'"
    and "mode = END \<or> currentIndex s \<noteq> None \<or> songs \<noteq> []"
  shows "well_formed s'"
proof -
  have ids: "same_ids s'"
    using assms(1,2) by (auto simp: well_formed_def intro: same_ids_bulkAddToQueue)
  have q: "all_songs (queue s')"
    using assms(1,2)
    by (auto simp: well_formed_def bulkAddToQueue_def Let_def all_songs_splice_insert all_songs_map_Some
          all_songs_append split: add_mode.splits option.splits sum.splits)
  have oq: "all_songs (originalQueue s')"
    using assms(1,2)
    by (auto simp: well_formed_def bulkAddToQueue_def Let_def all_songs_splice_insert all_songs_map_Some
          all_songs_append split: add_mode.splits option.splits sum.splits if_splits)
  have "index_ok s'"
    using assms
    by (auto simp: well_formed_def index_ok_def bulkAddToQueue_def Let_def length_splice_insert
          split: add_mode.splits option.splits sum.splits)
  with ids q oq show ?thesis by (simp add: well_formed_def)
qed

lemma well_formed_playNext:
  assumes "well_formed s" and "playNext sg s = Inr s'"
  shows "well_formed s'"
proof -
  have ids: "same_ids s'"
    using assms by (auto simp: well_formed_def intro: same_ids_playNext)
  have sg: "[Some sg] = map Some [sg]" by simp
  have q: "all_songs (queue s')"
    using assms
    by (auto simp: well_formed_def playNext_def Let_def all_songs_map_Some sg all_songs_splice_insert
          simp del: list.map split: option.splits sum.splits)
  have oq: "all_songs (originalQueue s')"
    using assms
    by (auto simp: well_formed_def playNext_def Let_def all_songs_map_Some sg all_songs_splice_insert
          all_songs_append simp del: list.map split: option.splits sum.splits if_splits)
  have "index_ok s'"
    using assms
    by (auto simp: well_formed_def index_ok_def playNext_def Let_def length_splice_insert
          split: option.splits sum.splits)
  with ids q oq show ?thesis by (simp add: well_formed_def)
qed

lemma entry_at_current:
  assumes "index_ok s" and "all_songs (queue s)" and "currentIndex s = Some c"
  shows "\<exists>cur. entry_at (queue s) c = Some cur"
proof -
  from assms(1,3) have r: "0 \<le> c" "nat c < length (queue s)"
    by (auto simp: index_ok_def)
  then have "queue s ! nat c \<in> set (queue s)" by simp
  with assms(2) have "queue s ! nat c \<noteq> None" by (metis all_songs_def)
  then obtain cur where "queue s ! nat c = Some cur" by (cases "queue s ! nat c") auto
  with r show ?thesis by (simp add: entry_at_def)
qed

lemma findIndex_present:
  assumes "findIndex (id_is (Some cur)) xs = Inr r" and "Some x \<in> set xs" and "sid x = sid cur"
  shows "0 \<le> r \<and> r < int (length xs)"
proof -
  have f: "findIndexFrom (id_is (Some cur)) xs 0 = Inr r"
    using assms(1) by (simp add: findIndex_def)
  have "r \<noteq> - 1"
  proof
    assume "r = - 1"
    with f findIndexFrom_miss [of "id_is (Some cur)" xs 0]
    have "id_is (Some cur) (Some x) = Inr False" using assms(2) by simp
    with assms(3) show False by (simp add: id_is_def)
  qed
  with findIndexFrom_range [OF f] show ?thesis by auto
qed

lemma well_formed_deleteSongFromQueue:
  assumes "well_formed s" and "deleteSongFromQueue i s = Inr s'"
  shows "well_formed s'"
proof -
  from assms(2) obtain q oq where
    q: "filterE (id_differs i) (queue s) = Inr q" and
    oq: "filterE (id_differs i) (originalQueue s) = Inr oq" and
    s': "queue s' = q" "originalQueue s' = oq"
    by (auto simp: deleteSongFromQueue_def split: sum.splits)
  have ids: "same_ids s'"
    using assms by (auto simp: well_formed_def intro: same_ids_deleteSongFromQueue)
  have typed: "all_songs (queue s')" "all_songs (originalQueue s')"
    using filterE_id_differs(2) [OF q] filterE_id_differs(2) [OF oq] by (simp_all add: s')
  have "index_ok s'"
  proof (cases "currentIndex s")
    case None
    with assms(2) q oq have "currentIndex s' = None"
      by (auto simp: deleteSongFromQueue_def)
    then show ?thesis by (simp add: index_ok_def)
  next
    case (Some c)
    with assms(1) obtain cur where cur: "entry_at (queue s) c = Some cur"
      using entry_at_current [of s c] by (auto simp: well_formed_def)
    show ?thesis
    proof (cases "sid cur = i")
      case True
      with assms(2) q oq Some cur have "currentIndex s' = None"
        by (auto simp: deleteSongFromQueue_def)
      then show ?thesis by (simp add: index_ok_def)
    next
      case False
      with assms(2) q oq Some cur obtain r where
        r: "findIndex (id_is (Some cur)) q = Inr r" and ci: "currentIndex s' = Some r"
        by (cases "findIndex (id_is (Some cur)) q") (auto simp: deleteSongFromQueue_def)
      have "Some cur \<in> set q"
        using entry_at_Some [OF cur] False filterE_id_differs(4) [OF q] by simp
      from findIndex_present [OF r this] show ?thesis
        by (simp add: index_ok_def ci s')
    qed
  qed
  with ids typed show ?thesis by (simp add: well_formed_def)
qed

lemma well_formed_toggleShuffle:
  assumes "well_formed s" and "rnd_ok rnd" and "toggleShuffle rnd s = Inr s'"
  shows "well_formed s'"
proof (cases "currentIndex s = None \<or> queue s = []")
  case True
  with assms(3) have "s' = s"
    by (auto simp: toggleShuffle_def split: option.splits)
  with assms(1) show ?thesis by simp
next
  case False
  then obtain c where c: "currentIndex s = Some c" and ne: "queue s \<noteq> []" by auto
  have ids: "same_ids s'"
    using assms by (auto simp: well_formed_def intro: same_ids_toggleShuffle)
  from assms(1) c obtain cur where cur: "entry_at (queue s) c = Some cur"
    using entry_at_current [of s c] by (auto simp: well_formed_def)
  show ?thesis
  proof (cases "isShuffled s")
    case True
    with assms(3) c ne cur obtain r where
      r: "findIndex (id_is (Some cur)) (originalQueue s) = Inr r" and
      s': "queue s' = originalQueue s" "originalQueue s' = originalQueue s"
          "currentIndex s' = Some (if r \<noteq> - 1 then r else 0)"
      by (cases "findIndex (id_is (Some cur)) (originalQueue s)")
         (auto simp: toggleShuffle_def Let_def)
    have "sid cur \<in> ids (queue s)"
      using entry_at_Some [OF cur] by (auto simp: ids_iff)
    then have "sid cur \<in> ids (originalQueue s)"
      using assms(1) by (simp add: well_formed_def same_ids_def)
    then obtain x where "Some x \<in> set (originalQueue s)" "sid x = sid cur"
      by (auto simp: ids_iff)
    from findIndex_present [OF r this] have "index_ok s'"
      by (auto simp: index_ok_def s')
    with ids assms(1) show ?thesis by (simp add: well_formed_def s')
  next
    case False
    from toggleShuffle_on_queue [OF assms(2,3) c ne False] obtain remaining where
      q: "queue s' = Some cur # fisher_yates rnd (length remaining - 1) remaining" and
      rem: "remaining = filter (\<lambda>e. \<exists>x. e = Some x \<and> sid x \<noteq> sid cur) (queue s)" and
      oq: "originalQueue s' = originalQueue s" and ci: "currentIndex s' = Some 0"
      using cur by auto
    have "set (fisher_yates rnd (length remaining - 1) remaining) = set remaining"
      by (rule mset_eq_setD) (rule fisher_yates_perm [OF assms(2)])
    then have "all_songs (queue s')"
      by (auto simp: all_songs_def q rem)
    moreover have "index_ok s'"
      by (simp add: index_ok_def ci q)
    ultimately show ?thesis using ids assms(1) by (simp add: well_formed_def oq)
  qed
qed

lemma well_formed_dispatch:
  assumes "well_formed s" and "action_in_range s a"
  shows "well_formed (dispatch a s)"
proof (cases a)
  case (ReorderQueue x y)
  with assms show ?thesis by (simp add: well_formed_reorderQueue)
next
  case (AddToQueue sg)
  with assms show ?thesis by (simp add: well_formed_addToQueue)
next
  case (PlayNext sg)
  with assms show ?thesis using well_formed_playNext [of s sg]
    by (cases "playNext sg s") (auto simp: commit_def)
next
  case (BulkAddToQueue songs mode)
  with assms show ?thesis using well_formed_bulkAddToQueue [of s songs mode]
    by (cases "bulkAddToQueue songs mode s") (auto simp: commit_def)
next
  case (DeleteSongFromQueue i)
  with assms show ?thesis using well_formed_deleteSongFromQueue [of s i]
    by (cases "deleteSongFromQueue i s") (auto simp: commit_def)
next
  case (ToggleShuffle rnd)
  with assms show ?thesis using well_formed_toggleShuffle [of s rnd]
    by (cases "toggleShuffle rnd s") (auto simp: commit_def)
qed (use assms in simp_all)

lemma well_formed_run: "well_formed s \<Longrightarrow> valid_run s as \<Longrightarrow> well_formed (run as s)"
  by (induction as arbitrary: s) (simp_all add: well_formed_dispatch)

section \<open>Claims about the queue\<close>

text \<open>
  C2. From any state in which the active and the canonical ordering hold the same set of
  track identifiers (the initial state is one), every sequence of queue actions
  (\<open>setQueue\<close>, \<open>setCurrentIndex\<close>, \<open>reorderQueue\<close>, \<open>addToQueue\<close>, \<open>playNext\<close>,
  \<open>clearQueue\<close>, \<open>bulkAddToQueue\<close>, \<open>deleteSongFromQueue\<close>, \<open>updateSongInQueue\<close>,
  \<open>toggleShuffle\<close>), with any arguments, leads to a state in which they again hold the
  same set of track identifiers. The only condition is on the environment:
  \<open>Math.random()\<close> returns numbers in \<open>[0, 1)\<close>.
\<close>

theorem queue_orderings_same_ids:
  "same_ids s \<Longrightarrow> list_all action_rnd_ok as \<Longrightarrow> same_ids (run as s)"
  by (rule same_ids_run_aux)

theorem queue_orderings_same_ids_witness:
  "same_ids initial_state
   \<and> list_all action_rnd_ok
        [SetQueue [song_A, song_B, song_C] ''Queue'', SetCurrentIndex (Some 1),
         ToggleShuffle (\<lambda>i. 1 / 2), ReorderQueue 0 7, PlayNext song_A,
         BulkAddToQueue [song_C, song_B] NEXT, DeleteSongFromQueue ''B'',
         UpdateSongInQueue ''C'' song_B, ToggleShuffle (\<lambda>i. 0), AddToQueue song_C]
   \<and> same_ids (run
        [SetQueue [song_A, song_B, song_C] ''Queue'', SetCurrentIndex (Some 1),
         ToggleShuffle (\<lambda>i. 1 / 2), ReorderQueue 0 7, PlayNext song_A,
         BulkAddToQueue [song_C, song_B] NEXT, DeleteSongFromQueue ''B'',
         UpdateSongInQueue ''C'' song_B, ToggleShuffle (\<lambda>i. 0), AddToQueue song_C]
        initial_state)"
proof -
  have h1: "same_ids initial_state"
    by (simp add: same_ids_def initial_state_def)
  have h2: "list_all action_rnd_ok
        [SetQueue [song_A, song_B, song_C] ''Queue'', SetCurrentIndex (Some 1),
         ToggleShuffle (\<lambda>i. 1 / 2), ReorderQueue 0 7, PlayNext song_A,
         BulkAddToQueue [song_C, song_B] NEXT, DeleteSongFromQueue ''B'',
         UpdateSongInQueue ''C'' song_B, ToggleShuffle (\<lambda>i. 0), AddToQueue song_C]"
    by (simp add: rnd_ok_def)
  show ?thesis
    using h1 h2 queue_orderings_same_ids [OF h1 h2] by simp
qed

text \<open>
  C3, as stated, fails. In the queue \<open>[A, B, C]\<close> with \<open>currentIndex = 0\<close>, the call
  \<open>reorderQueue(0, 5)\<close> moves A to the end and stores \<open>currentIndex = 5\<close>, while the
  active list still has three entries. In the initial state (no current track),
  \<open>bulkAddToQueue([], 'NEXT')\<close> stores \<open>currentIndex = 0\<close> with an empty queue. In a
  state within the bound whose canonical ordering is empty, turning shuffle off
  empties the active list and stores \<open>currentIndex = 0\<close>.
\<close>

theorem reorder_breaks_index_bound:
  "index_ok state_ABC
   \<and> currentIndex (run [ReorderQueue 0 5] state_ABC) = Some 5
   \<and> length (queue (run [ReorderQueue 0 5] state_ABC)) = 3
   \<and> \<not> index_ok (run [ReorderQueue 0 5] state_ABC)
   \<and> index_ok initial_state
   \<and> \<not> index_ok (run [BulkAddToQueue [] NEXT] initial_state)
   \<and> index_ok state_unsynced
   \<and> \<not> index_ok (run [ToggleShuffle (\<lambda>i. 0)] state_unsynced)"
  by code_simp

text \<open>
  C3, amended. Start from a state whose queue entries are all tracks, whose two orderings
  hold the same identifiers and whose \<open>currentIndex\<close> is null or a position of the active
  list. After every sequence of \<open>reorderQueue\<close> calls whose two indices are positions of
  the active list, \<open>addToQueue\<close>, \<open>playNext\<close>, \<open>bulkAddToQueue\<close> (other than the insert of
  no tracks in mode \<open>NEXT\<close> while no track is current), \<open>deleteSongFromQueue\<close> and
  \<open>toggleShuffle\<close> calls, \<open>currentIndex\<close> is again null or a position of the active list.
\<close>

theorem index_bound_kept:
  "well_formed s \<Longrightarrow> valid_run s as \<Longrightarrow> index_ok (run as s)"
  using well_formed_run [of s as] by (simp add: well_formed_def)

theorem index_bound_kept_witness:
  "well_formed state_ABC
   \<and> valid_run state_ABC
        [ReorderQueue 0 2, PlayNext song_B, ToggleShuffle (\<lambda>i. 1 / 2),
         DeleteSongFromQueue ''C'', BulkAddToQueue [song_C, song_A] END,
         ReorderQueue 3 1, ToggleShuffle (\<lambda>i. 0), AddToQueue song_A,
         DeleteSongFromQueue ''A'', BulkAddToQueue [song_A] NEXT]
   \<and> index_ok (run
        [ReorderQueue 0 2, PlayNext song_B, ToggleShuffle (\<lambda>i. 1 / 2),
         DeleteSongFromQueue ''C'', BulkAddToQueue [song_C, song_A] END,
         ReorderQueue 3 1, ToggleShuffle (\<lambda>i. 0), AddToQueue song_A,
         DeleteSongFromQueue ''A'', BulkAddToQueue [song_A] NEXT]
        state_ABC)"
proof -
  have h1: "well_formed state_ABC"
    by code_simp
  have h2: "valid_run state_ABC
        [ReorderQueue 0 2, PlayNext song_B, ToggleShuffle (\<lambda>i. 1 / 2),
         DeleteSongFromQueue ''C'', BulkAddToQueue [song_C, song_A] END,
         ReorderQueue 3 1, ToggleShuffle (\<lambda>i. 0), AddToQueue song_A,
         DeleteSongFromQueue ''A'', BulkAddToQueue [song_A] NEXT]"
    by (simp add: rnd_ok_def state_ABC_def setCurrentIndex_def setQueue_def initial_state_def
          reorderQueue_def splice_remove1_def splice_insert_def splice_start_def
          playNext_def bulkAddToQueue_def deleteSongFromQueue_def toggleShuffle_def
          addToQueue_def commit_def entry_at_def findIndex_def id_is_def id_is_not_def
          id_differs_def swap_def song_A_def song_B_def song_C_def Let_def)
  show ?thesis
    using h1 h2 index_bound_kept [OF h1 h2] by simp
qed

text \<open>
  C7, as stated, fails. \<open>setCurrentIndex\<close> has no range check: with the three-track queue
  \<open>[A, B, C]\<close>, \<open>setCurrentIndex(5)\<close> stores 5, not null.
\<close>

theorem setCurrentIndex_out_of_range_stored:
  "length (queue state_ABC) = 3
   \<and> currentIndex (dispatch (SetCurrentIndex (Some 5)) state_ABC) = Some 5
   \<and> currentIndex (dispatch (SetCurrentIndex (Some 5)) state_ABC) \<noteq> None"
  by code_simp

text \<open>
  C7, amended. For every integer \<open>i\<close>, \<open>setCurrentIndex(i)\<close> stores \<open>i\<close> as the current
  index and changes neither ordering, whether or not \<open>i\<close> is a position of the active
  queue; the stored index is a position of the active queue exactly when \<open>i\<close> was one.
\<close>

theorem setCurrentIndex_stores_any:
  "currentIndex (dispatch (SetCurrentIndex (Some i)) s) = Some i
   \<and> queue (dispatch (SetCurrentIndex (Some i)) s) = queue s
   \<and> originalQueue (dispatch (SetCurrentIndex (Some i)) s) = originalQueue s
   \<and> index_ok (dispatch (SetCurrentIndex (Some i)) s) = (0 \<le> i \<and> i < int (length (queue s)))"
  by (simp add: setCurrentIndex_def index_ok_def)

text \<open>
  C9. In a state with active and canonical ordering \<open>[A, B, C]\<close>, \<open>currentIndex = 0\<close> and
  shuffle off, \<open>toggleShuffle\<close> succeeds with A first in the active ordering and
  \<open>currentIndex = 0\<close>, whatever numbers \<open>Math.random\<close> returns; a second \<open>toggleShuffle\<close>
  gives back the active ordering \<open>[A, B, C]\<close> with \<open>currentIndex = 0\<close>.
\<close>

theorem toggleShuffle_twice_restores:
  assumes "queue s = [Some a, Some b, Some c]"
    and "originalQueue s = [Some a, Some b, Some c]"
    and "currentIndex s = Some 0"
    and "\<not> isShuffled s"
  shows "\<exists>s1 s2. toggleShuffle rnd s = Inr s1
           \<and> entry_at (queue s1) 0 = Some a \<and> currentIndex s1 = Some 0 \<and> isShuffled s1
           \<and> toggleShuffle rnd' s1 = Inr s2
           \<and> queue s2 = [Some a, Some b, Some c] \<and> currentIndex s2 = Some 0
           \<and> \<not> isShuffled s2"
proof -
  have cur: "entry_at (queue s) 0 = Some a"
    by (simp add: assms(1) entry_at_def)
  have "\<forall>x \<in> set (queue s). \<exists>r. id_is_not (Some a) x = Inr r"
    by (auto simp: assms(1) id_is_not_def)
  from filterE_total [OF this] obtain remaining where
    rem: "filterE (id_is_not (Some a)) (queue s) = Inr remaining" by blast
  define s1 where "s1 = s\<lparr>isShuffled := True,
       queue := Some a # fisher_yates rnd (length remaining - 1) remaining,
       currentIndex := Some 0\<rparr>"
  have ne: "length (queue s) \<noteq> 0"
    by (simp add: assms(1))
  have t1: "toggleShuffle rnd s = Inr s1"
    using assms(3,4) ne by (simp add: toggleShuffle_def cur rem s1_def)
  have cur1: "entry_at (queue s1) 0 = Some a"
    by (simp add: s1_def entry_at_def)
  have f: "findIndex (id_is (Some a)) (originalQueue s1) = Inr 0"
    by (simp add: s1_def assms(2) findIndex_def id_is_def)
  define s2 where "s2 = s1\<lparr>isShuffled := False, queue := originalQueue s1,
       currentIndex := Some 0\<rparr>"
  have s1: "isShuffled s1" "currentIndex s1 = Some 0" "queue s1 \<noteq> []"
    by (simp_all add: s1_def)
  have t2: "toggleShuffle rnd' s1 = Inr s2"
    by (simp add: toggleShuffle_def s1 cur1 f s2_def)
  show ?thesis
    using t1 t2 cur1 by (intro exI [of _ s1] exI [of _ s2]) (simp add: s2_def s1_def assms(2))
qed

theorem toggleShuffle_twice_restores_witness:
  "queue state_ABC = [Some song_A, Some song_B, Some song_C]
   \<and> originalQueue state_ABC = [Some song_A, Some song_B, Some song_C]
   \<and> currentIndex state_ABC = Some 0 \<and> \<not> isShuffled state_ABC
   \<and> (\<exists>s1 s2. toggleShuffle (\<lambda>i. 1 / 2) state_ABC = Inr s1
           \<and> entry_at (queue s1) 0 = Some song_A \<and> currentIndex s1 = Some 0 \<and> isShuffled s1
           \<and> toggleShuffle (\<lambda>i. 0) s1 = Inr s2
           \<and> queue s2 = [Some song_A, Some song_B, Some song_C] \<and> currentIndex s2 = Some 0
           \<and> \<not> isShuffled s2)"
proof -
  have h1: "queue state_ABC = [Some song_A, Some song_B, Some song_C]"
    and h2: "originalQueue state_ABC = [Some song_A, Some song_B, Some song_C]"
    and h3: "currentIndex state_ABC = Some 0"
    and h4: "\<not> isShuffled state_ABC"
    by (simp_all add: state_ABC_def setCurrentIndex_def setQueue_def initial_state_def)
  show ?thesis
    using h1 h2 h3 h4
      toggleShuffle_twice_restores [OF h1 h2 h3 h4, of "\<lambda>i. 1 / 2" "\<lambda>i. 0"]
    by simp
qed

text \<open>
  C10. When \<open>currentIndex\<close> is null or the active queue is empty, \<open>toggleShuffle\<close> returns
  the player state as it was: no field changes, and nothing is thrown.
\<close>

theorem toggleShuffle_without_current_track:
  "currentIndex s = None \<or> queue s = [] \<Longrightarrow>
     toggleShuffle rnd s = Inr s \<and> dispatch (ToggleShuffle rnd) s = s"
  by (auto simp: toggleShuffle_def commit_def split: option.splits)

theorem toggleShuffle_without_current_track_witness:
  "(currentIndex initial_state = None \<or> queue initial_state = [])
   \<and> toggleShuffle (\<lambda>i. 1 / 2) initial_state = Inr initial_state
   \<and> dispatch (ToggleShuffle (\<lambda>i. 1 / 2)) initial_state = initial_state"
proof -
  have h: "currentIndex initial_state = None \<or> queue initial_state = []"
    by (simp add: initial_state_def)
  show ?thesis
    using h toggleShuffle_without_current_track [OF h, of "\<lambda>i. 1 / 2"]
    by (simp add: commit_def)
qed

section \<open>Claims about the audio engine\<close>

text \<open>
  C6, as stated, fails. With a known duration of 100 seconds, \<open>seek(-5)\<close> assigns \<open>-5\<close> to
  \<open>player.currentTime\<close>: there is no clamp at 0. With an unknown duration (\<open>NaN\<close>),
  \<open>seek(50)\<close> assigns 50: the call is not a no-op.
\<close>

theorem seek_not_clamped_below:
  "seek (Num (- 5)) player_100 = Inr (player_100\<lparr>player_currentTime := - 5\<rparr>)
   \<and> player_currentTime (player_100\<lparr>player_currentTime := - 5\<rparr>) < 0
   \<and> seek (Num 50) player_unknown = Inr (player_unknown\<lparr>player_currentTime := 50\<rparr>)
   \<and> player_unknown\<lparr>player_currentTime := 50\<rparr> \<noteq> player_unknown"
  by (simp add: seek_def isFinite_def truthy_def set_currentTime_def player_100_def
        player_unknown_def)

text \<open>
  C6, amended. For every finite input time \<open>t\<close>: when the resource's duration is a finite
  non-zero number \<open>d\<close>, \<open>seek\<close> assigns \<open>min t d\<close> (an upper clamp only); when the duration
  is unknown (\<open>NaN\<close>), zero or unbounded, it assigns \<open>t\<close> as given. A non-finite input time
  leaves the resource as it was.
\<close>

theorem seek_upper_clamp_only:
  "(player_duration p = Num d \<and> d \<noteq> 0 \<longrightarrow>
      seek (Num t) p = Inr (p\<lparr>player_currentTime := min t d\<rparr>))
   \<and> (player_duration p = NaN \<or> player_duration p = Num 0 \<or> player_duration p = PosInf \<longrightarrow>
      seek (Num t) p = Inr (p\<lparr>player_currentTime := t\<rparr>))
   \<and> seek NaN p = Inr p \<and> seek PosInf p = Inr p \<and> seek NegInf p = Inr p"
  by (auto simp: seek_def isFinite_def truthy_def set_currentTime_def)

theorem seek_upper_clamp_only_witness:
  "player_duration player_100 = Num 100 \<and> (100::real) \<noteq> 0
   \<and> seek (Num 250) player_100 = Inr (player_100\<lparr>player_currentTime := 100\<rparr>)
   \<and> seek (Num 40) player_100 = Inr (player_100\<lparr>player_currentTime := 40\<rparr>)
   \<and> player_duration player_unknown = NaN
   \<and> seek (Num 250) player_unknown = Inr (player_unknown\<lparr>player_currentTime := 250\<rparr>)"
proof -
  have h1: "player_duration player_100 = Num 100 \<and> (100::real) \<noteq> 0"
    by (simp add: player_100_def)
  have h2: "player_duration player_unknown = NaN \<or> player_duration player_unknown = Num 0
              \<or> player_duration player_unknown = PosInf"
    by (simp add: player_unknown_def)
  show ?thesis
    using h1 h2 seek_upper_clamp_only [of player_100 100 250]
      seek_upper_clamp_only [of player_100 100 40]
      seek_upper_clamp_only [of player_unknown 0 250]
    by (simp add: player_unknown_def)
qed

lemma stale_resume_keeps_player:
  "playRequestRef w \<noteq> requestId r \<Longrightarrow> player (loadSong_resume r res playOk w) = player w"
  by (cases res)
     (auto simp: loadSong_resume_def Let_def cleanupUrl_def split: option.splits)

lemma resume_keeps_token:
  "playRequestRef (loadSong_resume r res playOk w) = playRequestRef w"
  by (cases res)
     (auto simp: loadSong_resume_def Let_def cleanupUrl_def split: option.splits)

lemma resume_player_src:
  "player_src (player (loadSong_resume r res playOk w)) = player_src (player w)
   \<or> fst res = Some (player_src (player (loadSong_resume r res playOk w)))"
  by (cases res)
     (auto simp: loadSong_resume_def Let_def cleanupUrl_def split: option.splits)

lemma resume_keeps_permissionErrorSong:
  "permissionErrorSong (store (loadSong_resume r res playOk w)) = permissionErrorSong (store w)"
  by (cases res)
     (auto simp: loadSong_resume_def Let_def cleanupUrl_def setIsPlaying_def
        consumeSongProgress_def split: option.splits)

section \<open>Claims about the audio controller\<close>

text \<open>
  What holds for stale results. Three loads are started with tokens \<open>t1 < t2 < t3\<close> (the
  store may change between them), and their source resolutions complete in the order
  \<open>t3\<close>, \<open>t1\<close>, \<open>t2\<close>, with any results. Then starting the loads does not touch the audio
  element, \<open>loadSong\<close> itself assigns nothing to the audio element in the two stale
  completions, and the source of the audio element at the end is the one it had at the
  start or the one resolved for \<open>t3\<close>.
\<close>

lemma stale_completions_assign_nothing:
  assumes "t1 < t2" and "t2 < t3"
    and "loadSong_begin t1 w0 = (w1, Some r1)"
    and "loadSong_begin t2 (w1\<lparr>store := st2\<rparr>) = (w2, Some r2)"
    and "loadSong_begin t3 (w2\<lparr>store := st3\<rparr>) = (w3, Some r3)"
    and "w4 = loadSong_resume r3 res3 ok3 w3"
    and "w5 = loadSong_resume r1 res1 ok1 (w4\<lparr>store := st4\<rparr>)"
    and "w6 = loadSong_resume r2 res2 ok2 (w5\<lparr>store := st5\<rparr>)"
  shows "player w3 = player w0 \<and> player w5 = player w4 \<and> player w6 = player w4
         \<and> (player_src (player w6) = player_src (player w0)
            \<or> fst res3 = Some (player_src (player w6)))"
proof -
  have b1: "requestId r1 = t1" "player w1 = player w0"
    using assms(3) by (auto simp: loadSong_begin_def split: option.splits)
  have b2: "requestId r2 = t2" "player w2 = player w1"
    using assms(4) by (auto simp: loadSong_begin_def split: option.splits)
  have b3: "playRequestRef w3 = t3" "player w3 = player w2"
    using assms(5) by (auto simp: loadSong_begin_def split: option.splits)
  have tok4: "playRequestRef w4 = t3"
    by (simp add: assms(6) resume_keeps_token b3)
  have p5: "player w5 = player w4"
    unfolding assms(7) using stale_resume_keeps_player [of "w4\<lparr>store := st4\<rparr>" r1 res1 ok1]
      tok4 b1 assms(1,2) by simp
  have tok5: "playRequestRef w5 = t3"
    by (simp add: assms(7) resume_keeps_token tok4)
  have p6: "player w6 = player w5"
    unfolding assms(8) using stale_resume_keeps_player [of "w5\<lparr>store := st5\<rparr>" r2 res2 ok2]
      tok5 b2 assms(2) by simp
  have "player_src (player w4) = player_src (player w3)
        \<or> fst res3 = Some (player_src (player w4))"
    unfolding assms(6) by (rule resume_player_src)
  then show ?thesis
    by (simp add: p5 p6 b1 b2 b3)
qed

text \<open>
  C1, at a failing input. A plays; the user skips to B and to C, so three loads start
  with the tokens \<open>1000 < 1001 < 1002\<close>. The resolution for 1002 completes first: its
  blob URL becomes the source and playback runs. Then the resolution for 1000 completes
  with nulls. This stale result is not discarded: before \<open>loadSong\<close> compares the token,
  \<open>cleanupUrl\<close> revokes the blob URL the audio element is playing, \<open>lastPlayedSourceRef\<close>
  is overwritten, and \<open>setIsPlaying(false)\<close> is called, on which effect 2 pauses the audio
  element. The source of the audio element stays the one of 1002 throughout, also after
  the stale completion for 1001.
\<close>

theorem stale_failed_load_pauses_playback:
  "loadSong_begin 1000 (controller_of state_playing) = (race_w1, Some race_r1)
   \<and> loadSong_begin 1001 (race_w1\<lparr>store := setCurrentIndex (Some 1) state_playing\<rparr>)
       = (race_w2, Some race_r2)
   \<and> loadSong_begin 1002 (race_w2\<lparr>store := setCurrentIndex (Some 2) state_playing\<rparr>)
       = (race_w3, Some race_r3)
   \<and> player_src (player race_w4) = ''blob:c.mp3''
   \<and> player_paused (player race_w4) = False \<and> isPlaying (store race_w4) = True
   \<and> activeObjectUrlRef race_w4 = Some ''blob:c.mp3''
   \<and> lastPlayedSourceRef race_w4 = Some (RawFile file_C)
   \<and> playRequestRef race_w4 = 1002 \<and> requestId race_r1 = 1000
   \<and> player_src (player race_w5) = ''blob:c.mp3''
   \<and> revokedUrls race_w5 = [''blob:c.mp3'']
   \<and> lastPlayedSourceRef race_w5 = None
   \<and> isPlaying (store race_w5) = False
   \<and> player_paused (player (playPauseEffect PlayResolved race_w5)) = True
   \<and> player race_w6 = player (playPauseEffect PlayResolved race_w5)
   \<and> player_src (player race_w6) = ''blob:c.mp3''"
proof -
  have st: "queue state_playing = [Some song_A, Some song_B, Some song_C]"
    "isPlaying state_playing = True" "songProgress state_playing = Map.empty"
    "currentIndex state_playing = Some 0"
    by (simp_all add: state_playing_def setIsPlaying_def state_ABC_def setCurrentIndex_def
          setQueue_def initial_state_def)
  have h3: "loadSong_begin 1000 (controller_of state_playing) = (race_w1, Some race_r1)"
    by (simp add: loadSong_begin_def currentSong_def entry_at_def controller_of_def
          race_w1_def race_r1_def st)
  have h4: "loadSong_begin 1001 (race_w1\<lparr>store := setCurrentIndex (Some 1) state_playing\<rparr>)
              = (race_w2, Some race_r2)"
    by (simp add: loadSong_begin_def currentSong_def entry_at_def controller_of_def
          race_w1_def race_w2_def race_r2_def setCurrentIndex_def st)
  have h5: "loadSong_begin 1002 (race_w2\<lparr>store := setCurrentIndex (Some 2) state_playing\<rparr>)
              = (race_w3, Some race_r3)"
    by (simp add: loadSong_begin_def currentSong_def entry_at_def controller_of_def
          race_w1_def race_w2_def race_w3_def race_r3_def setCurrentIndex_def st)
  have url: "createObjectURL web_env file_C = ''blob:c.mp3''"
    by (simp add: createObjectURL_def web_env_def file_C_def)
  have w4: "race_w4 = race_w3
      \<lparr>lastPlayedSourceRef := Some (RawFile file_C), activeObjectUrlRef := Some ''blob:c.mp3'',
       recentlyPlayed := [song_C], metadataSong := Some song_C,
       player := \<lparr>player_src = ''blob:c.mp3'', player_currentTime = 0,
                  player_duration = NaN, player_paused = False\<rparr>\<rparr>"
    by (simp add: race_w4_def url race_w3_def race_w2_def race_w1_def race_r3_def
          controller_of_def loadSong_resume_def isMetadataUpdate_def player_empty_def
          cleanupUrl_def startsWith_blob_def resumeTime_def addRecentlyPlayed_def Let_def)
  have w5: "race_w5 = race_w4
      \<lparr>revokedUrls := [''blob:c.mp3''], activeObjectUrlRef := None,
       lastPlayedSourceRef := None,
       store := setIsPlaying False (setCurrentIndex (Some 2) state_playing)\<rparr>"
    by (simp add: race_w5_def w4 race_w3_def race_w2_def race_w1_def controller_of_def
          loadSong_resume_def isMetadataUpdate_def cleanupUrl_def Let_def)
  have p6: "player race_w6 = player (playPauseEffect PlayResolved race_w5)"
    unfolding race_w6_def
    by (rule stale_resume_keeps_player)
       (simp add: playPauseEffect_def w5 w4 race_w3_def race_r2_def setIsPlaying_def)
  show ?thesis
    using h3 h4 h5 p6
    by (simp add: w5 w4 race_w3_def race_w2_def race_w1_def controller_of_def race_r1_def
          playPauseEffect_def setIsPlaying_def setCurrentIndex_def st)
qed

text \<open>
  C4, at a failing input. The current track is known only by a file handle whose
  permission has lapsed, and playback is on. \<open>getSongFile\<close> throws "Permission denied",
  \<open>getSourceUrl\<close> catches it and returns nulls, and \<open>loadSong\<close> only clears \<open>isPlaying\<close>:
  \<open>permissionErrorSong\<close> stays null, so the track is not surfaced for re-authorization.
  The index is not moved.
\<close>

theorem permission_error_not_surfaced:
  "currentSong state_locked = Some song_locked
   \<and> getSongFile web_env song_locked = Inl PermissionDeniedError
   \<and> getSourceUrl web_env song_locked = (None, None)
   \<and> permissionErrorSong (store (loadSong web_env 1000 True (controller_of state_locked))) = None
   \<and> isPlaying (store (loadSong web_env 1000 True (controller_of state_locked))) = False
   \<and> currentIndex (store (loadSong web_env 1000 True (controller_of state_locked))) = Some 0"
proof -
  have cur: "currentSong state_locked = Some song_locked"
    by (simp add: currentSong_def state_locked_def setIsPlaying_def setCurrentIndex_def
          setQueue_def entry_at_def)
  have gsf: "getSongFile web_env song_locked = Inl PermissionDeniedError"
    by (simp add: getSongFile_def web_env_def song_locked_def)
  have url: "getSourceUrl web_env song_locked = (None, None)"
    by (simp add: getSourceUrl_def gsf) (simp add: web_env_def)
  have idx: "currentIndex state_locked = Some 0"
    by (simp add: state_locked_def setIsPlaying_def setCurrentIndex_def)
  have perr: "permissionErrorSong state_locked = None"
    by (simp add: state_locked_def setIsPlaying_def setCurrentIndex_def setQueue_def
          initial_state_def)
  have "loadSong web_env 1000 True (controller_of state_locked)
        = ((controller_of state_locked)\<lparr>playRequestRef := 1000\<rparr>)
            \<lparr>store := setIsPlaying False state_locked\<rparr>"
    by (simp add: loadSong_def loadSong_begin_def cur url loadSong_resume_def
          isMetadataUpdate_def cleanupUrl_def Let_def controller_of_def player_empty_def)
  then show ?thesis
    using cur gsf url by (simp add: setIsPlaying_def idx perr)
qed

text \<open>
  C8, as stated, fails. The track Z has the catalog duration 0 and a stored position of
  100 seconds, so \<open>0 < 100 < duration - 10\<close> is false; yet the load resumes at 100 seconds
  and deletes the entry, because a duration of 0 counts as 300 seconds.
\<close>

theorem resume_uses_default_duration:
  "songProgress state_Z ''Z'' = Some 100 \<and> duration song_Z = 0
   \<and> \<not> ((0::real) < 100 \<and> 100 < duration song_Z - 10)
   \<and> player_src (player (loadSong electron_env 1000 False (controller_of state_Z)))
       = ''file:///music/z.mp3''
   \<and> player_currentTime (player (loadSong electron_env 1000 False (controller_of state_Z))) = 100
   \<and> songProgress (store (loadSong electron_env 1000 False (controller_of state_Z))) ''Z'' = None"
proof -
  have cur: "currentSong state_Z = Some song_Z"
    by (simp add: currentSong_def state_Z_def saveLastPosition_def setCurrentIndex_def
          setQueue_def entry_at_def)
  have url: "getSourceUrl electron_env song_Z
             = (Some ''file:///music/z.mp3'', Some (RawPath ''/music/z.mp3''))"
    by (simp add: getSourceUrl_def electron_env_def song_Z_def)
  have prog: "songProgress state_Z = [''Z'' \<mapsto> 100]"
    by (simp add: state_Z_def saveLastPosition_def)
  have z: "sid song_Z = ''Z''" "duration song_Z = 0"
    by (simp_all add: song_Z_def)
  have ip: "isPlaying state_Z = False"
    by (simp add: state_Z_def saveLastPosition_def setCurrentIndex_def setQueue_def
          initial_state_def)
  show ?thesis
    by (simp add: loadSong_def loadSong_begin_def cur url loadSong_resume_def
          isMetadataUpdate_def cleanupUrl_def Let_def controller_of_def player_empty_def
          startsWith_blob_def resumeTime_def prog z ip consumeSongProgress_def)
qed

text \<open>
  C8, amended. Let \<open>d\<close> be the song's catalog duration, or 300 when that is 0. When a
  resolution for the latest request succeeds with a source \<open>u\<close> that is not taken for a
  metadata update, \<open>u\<close> becomes the source of the audio element. If the progress the load
  captured holds \<open>t\<close> seconds for the track and \<open>0 < t < d - 10\<close>, playback is positioned at
  \<open>t\<close> and the store's entry for the track is deleted; otherwise playback is positioned
  at 0 and the stored progress is left as it is. In both cases a later load of the
  same track that captures the store's progress as it then is, with the store's
  progress for the track having been what this load captured, starts at 0.
\<close>

theorem resume_position_rule:
  assumes "\<not> (isMetadataUpdate (lastPlayedSourceRef w) rawSrc \<and> player_src (player w) \<noteq> [])"
    and "u \<noteq> []"
    and "playRequestRef w = requestId r"
    and "w' = loadSong_resume r (Some u, rawSrc) playOk w"
    and "d = (if duration (reqSong r) \<noteq> 0 then duration (reqSong r) else 300)"
  shows "player_src (player w') = u
    \<and> (case reqSongProgress r (sid (reqSong r)) of
         Some t \<Rightarrow>
           if 0 < t \<and> t < d - 10
           then player_currentTime (player w') = t
                \<and> songProgress (store w') = (songProgress (store w))(sid (reqSong r) := None)
           else player_currentTime (player w') = 0
                \<and> songProgress (store w') = songProgress (store w)
       | None \<Rightarrow>
           player_currentTime (player w') = 0
           \<and> songProgress (store w') = songProgress (store w))
    \<and> (songProgress (store w) (sid (reqSong r)) = reqSongProgress r (sid (reqSong r)) \<longrightarrow>
        resumeTime (r\<lparr>reqSongProgress := songProgress (store w')\<rparr>) = None)"
proof -
  let ?i = "sid (reqSong r)"
  have cu: "playRequestRef (cleanupUrl w) = playRequestRef w" "player (cleanupUrl w) = player w"
    "store (cleanupUrl w) = store w"
    by (simp_all add: cleanupUrl_def split: option.splits)
  show ?thesis
  proof (cases "resumeTime r")
    case None
    then have w': "player_src (player w') = u" "player_currentTime (player w') = 0"
      "songProgress (store w') = songProgress (store w)"
      using assms(1-3) unfolding assms(4)
      by (auto simp: loadSong_resume_def Let_def cu setIsPlaying_def)
    from None have no: "case reqSongProgress r ?i of
        Some t \<Rightarrow> \<not> (0 < t \<and> t < d - 10) | None \<Rightarrow> True"
      by (auto simp: resumeTime_def assms(5) split: option.splits if_splits)
    have "songProgress (store w) ?i = reqSongProgress r ?i \<longrightarrow>
          resumeTime (r\<lparr>reqSongProgress := songProgress (store w')\<rparr>) = None"
      using None by (auto simp: resumeTime_def w' split: option.splits if_splits)
    with w' no show ?thesis by (auto split: option.splits)
  next
    case (Some t)
    then have w': "player_src (player w') = u" "player_currentTime (player w') = t"
      "songProgress (store w') = (songProgress (store w))(?i := None)"
      using assms(1-3) unfolding assms(4)
      by (auto simp: loadSong_resume_def Let_def cu setIsPlaying_def consumeSongProgress_def)
    from Some have yes: "reqSongProgress r ?i = Some t" "0 < t \<and> t < d - 10"
      by (auto simp: resumeTime_def assms(5) split: option.splits if_splits)
    have "resumeTime (r\<lparr>reqSongProgress := songProgress (store w')\<rparr>) = None"
      by (simp add: resumeTime_def w')
    with w' yes show ?thesis by simp
  qed
qed

theorem resume_position_rule_witness:
  "\<not> (isMetadataUpdate (lastPlayedSourceRef controller_Z) (Some (RawPath ''/music/z.mp3''))
        \<and> player_src (player controller_Z) \<noteq> [])
   \<and> ''file:///music/z.mp3'' \<noteq> []
   \<and> playRequestRef controller_Z = requestId request_Z
   \<and> reqSongProgress request_Z (sid (reqSong request_Z)) = Some 100
   \<and> (0::real) < 100 \<and> (100::real) < 300 - 10
   \<and> player_currentTime (player (loadSong_resume request_Z
         (Some ''file:///music/z.mp3'', Some (RawPath ''/music/z.mp3'')) False controller_Z)) = 100
   \<and> songProgress (store (loadSong_resume request_Z
         (Some ''file:///music/z.mp3'', Some (RawPath ''/music/z.mp3'')) False controller_Z)) ''Z''
       = None"
proof -
  have h1: "\<not> (isMetadataUpdate (lastPlayedSourceRef controller_Z)
                  (Some (RawPath ''/music/z.mp3''))
               \<and> player_src (player controller_Z) \<noteq> [])"
    by (simp add: controller_Z_def controller_of_def player_empty_def)
  have h2: "''file:///music/z.mp3'' \<noteq> []"
    by simp
  have h3: "playRequestRef controller_Z = requestId request_Z"
    by (simp add: controller_Z_def request_Z_def)
  have rz: "reqSongProgress request_Z (sid (reqSong request_Z)) = Some 100"
    "duration (reqSong request_Z) = 0" "sid (reqSong request_Z) = ''Z''"
    by (simp_all add: request_Z_def song_Z_def)
  show ?thesis
    using h1 h2 h3 rz(1) resume_position_rule [OF h1 h2 h3 refl refl, of False]
    by (simp add: rz)
qed

section \<open>Claims about session restore\<close>










text \<open>
  \<open>setOriginalQueue\<close> is no queue action of the user; \<open>initApp\<close> calls it with the list it
  has just passed to \<open>setQueue\<close>, so the restored state holds the same identifiers in
  both orderings.
\<close>

lemma same_ids_initApp_restore:
  "same_ids s \<Longrightarrow> same_ids (initApp_restore db savedSession s)"
  by (auto simp: initApp_restore_def same_ids_def Let_def setQueue_def setOriginalQueue_def
        setCurrentIndex_def split: saved_session.splits option.splits)

end
